theory Spec2Isabelle
  imports
    Complex_Main
    "HOL-Library.Char_ord"
    "HOL-Library.List_Lexorder"
    "HOL-Library.Product_Lexorder"
begin

section \<open>Tables\<close>

text \<open>
  The notebook \<^verbatim>\<open>blight_ticket.ipynb\<close> is a linear script over two pandas frames,
  \<^verbatim>\<open>train\<close> and \<^verbatim>\<open>test\<close>. Its own code is the sequence of calls; what each call
  does to a frame is pandas' documented behaviour, written out below for exactly the
  calls the script makes.

  A cell of a frame read from a CSV file is missing (\<^verbatim>\<open>NaN\<close>), a number or a text.
  A number is the rational it denotes (a boolean counts as 1 or 0, as Python's equality
  and ordering have it); a text is a list of 8-bit characters, which is what the
  ISO-8859-1 decoding of the files yields.
\<close>

datatype cell = NaN | Num rat | Str string

text \<open>
  A frame is column oriented: a row index (the row labels) and named columns, each
  holding one cell per row.
\<close>

record table =
  index :: "cell list"
  columns :: "(string \<times> cell list) list"

definition names :: "table \<Rightarrow> string list" where
  "names t = map fst (columns t)"

text \<open>\<^verbatim>\<open>len(df)\<close>: the number of rows.\<close>

definition len :: "table \<Rightarrow> nat" where
  "len t = length (index t)"

text \<open>
  What every frame satisfies: the column names are distinct and every column has one
  cell per row.
\<close>

definition wf_table :: "table \<Rightarrow> bool" where
  "wf_table t \<longleftrightarrow>
     distinct (names t) \<and> list_all (\<lambda>(c, xs). length xs = len t) (columns t)"

text \<open>
  A number of a frame is an int64 or a float64 value, and the frames of the model do
  not record which. Every integer from \<open>-2\<^sup>5\<^sup>3\<close> to \<open>2\<^sup>5\<^sup>3\<close> is a float64 value
  as well, so a frame whose numbers all lie in that range holds the same numbers
  whether pandas keeps a column as int64 or converts it to float64.
\<close>

fun within_float64 :: "cell \<Rightarrow> bool" where
  "within_float64 (Num r) = (\<bar>r\<bar> \<le> 2 ^ 53)"
| "within_float64 NaN = True"
| "within_float64 (Str s) = True"

definition exact_numbers :: "table \<Rightarrow> bool" where
  "exact_numbers t \<longleftrightarrow>
     list_all within_float64 (index t) \<and>
     list_all (\<lambda>(c, xs). list_all within_float64 xs) (columns t)"

datatype error = KeyError "string list" | ValueError

definition bindE :: "error + 'a \<Rightarrow> ('a \<Rightarrow> error + 'b) \<Rightarrow> error + 'b" where
  "bindE m f = (case m of Inl e \<Rightarrow> Inl e | Inr x \<Rightarrow> f x)"

subsection \<open>The pandas calls of the script\<close>

text \<open>\<^verbatim>\<open>df[c]\<close>: the column named \<open>c\<close>; a \<^verbatim>\<open>KeyError\<close> when there is none.\<close>

definition getitem :: "table \<Rightarrow> string \<Rightarrow> error + cell list" where
  "getitem t c =
     (case map_of (columns t) c of None \<Rightarrow> Inl (KeyError [c]) | Some xs \<Rightarrow> Inr xs)"

text \<open>
  \<^verbatim>\<open>column == v\<close> for a number \<open>v\<close>, row by row. A missing cell and a text are equal to
  no number.
\<close>

definition eq_scalar :: "cell list \<Rightarrow> rat \<Rightarrow> bool list" where
  "eq_scalar xs v = map (\<lambda>c. c = Num v) xs"

text \<open>\<^verbatim>\<open>a | b\<close> on two boolean columns of one frame.\<close>

definition or_mask :: "bool list \<Rightarrow> bool list \<Rightarrow> bool list" where
  "or_mask a b = map (\<lambda>(x, y). x \<or> y) (zip a b)"

text \<open>\<^verbatim>\<open>df[mask]\<close>: the rows where the mask holds, in their order, labels kept.\<close>

definition select :: "bool list \<Rightarrow> 'a list \<Rightarrow> 'a list" where
  "select m xs = map snd (filter fst (zip m xs))"

definition getitem_mask :: "table \<Rightarrow> bool list \<Rightarrow> table" where
  "getitem_mask t m =
     \<lparr>index = select m (index t),
      columns = map (\<lambda>(c, xs). (c, select m xs)) (columns t)\<rparr>"

text \<open>
  \<^verbatim>\<open>df.drop(labels, axis=1, inplace=True)\<close> with the default \<^verbatim>\<open>errors='raise'\<close>:
  a \<^verbatim>\<open>KeyError\<close> listing the labels that are no column of the frame; otherwise the
  frame without the named columns. A label may be named twice.
\<close>

definition drop_axis1 :: "string list \<Rightarrow> table \<Rightarrow> error + table" where
  "drop_axis1 labels t =
     (case filter (\<lambda>l. l \<notin> set (names t)) labels of
        [] \<Rightarrow> Inr (t\<lparr>columns := filter (\<lambda>(c, xs). c \<notin> set labels) (columns t)\<rparr>)
      | l # ls \<Rightarrow> Inl (KeyError (l # ls)))"

text \<open>
  \<^verbatim>\<open>pd.concat([a, b])\<close>: the rows of \<open>a\<close>, then the rows of \<open>b\<close>, labels kept. The
  columns are those of \<open>a\<close> followed by those only \<open>b\<close> has (older pandas releases sort
  the names when the two frames differ; the rows are the same); a column that one
  frame lacks is missing in that frame's rows.

  pandas brings the two parts of a column to one dtype. Where an int64 column meets a
  float64 column, or rows in which the column is missing, its integers are converted
  to float64, which rounds an integer beyond \<open>\<plusminus>2\<^sup>5\<^sup>3\<close>. On two frames with
  \<^const>\<open>exact_numbers\<close> the conversion changes no number, and the definition below,
  which keeps every number as it is, is what pandas computes. It does not follow the
  rounding outside that range: whatever is proved through the concatenation is proved
  for frames with \<^const>\<open>exact_numbers\<close> only.
\<close>

definition column_or_nan :: "table \<Rightarrow> string \<Rightarrow> cell list" where
  "column_or_nan t c =
     (case map_of (columns t) c of None \<Rightarrow> replicate (len t) NaN | Some xs \<Rightarrow> xs)"

definition pd_concat :: "table \<Rightarrow> table \<Rightarrow> table" where
  "pd_concat a b =
     \<lparr>index = index a @ index b,
      columns = map (\<lambda>c. (c, column_or_nan a c @ column_or_nan b c))
                  (names a @ filter (\<lambda>c. c \<notin> set (names a)) (names b))\<rparr>"

text \<open>
  \<^verbatim>\<open>df.set_index(c)\<close>: column \<open>c\<close> becomes the row index and leaves the columns;
  a \<^verbatim>\<open>KeyError\<close> when there is no such column.
\<close>

definition set_index :: "string \<Rightarrow> table \<Rightarrow> error + table" where
  "set_index c t =
     (case map_of (columns t) c of
        None \<Rightarrow> Inl (KeyError [c])
      | Some xs \<Rightarrow> Inr \<lparr>index = xs, columns = filter (\<lambda>(n, ys). n \<noteq> c) (columns t)\<rparr>)"

text \<open>
  \<^verbatim>\<open>column.astype('category')\<close>: the categories are the distinct values of the column
  that are not missing, sorted (numbers by value and before texts, texts by code
  point); every row holds the position of its value among the categories, and
  \<open>-1\<close> where the value is missing.
\<close>

fun cell_key :: "cell \<Rightarrow> nat \<times> rat \<times> string" where
  "cell_key (Num r) = (0, r, [])"
| "cell_key (Str s) = (1, 0, s)"
| "cell_key NaN = (2, 0, [])"

fun index_of :: "'a list \<Rightarrow> 'a \<Rightarrow> nat" where
  "index_of [] x = 0"
| "index_of (y # ys) x = (if x = y then 0 else Suc (index_of ys x))"

definition code_of :: "cell list \<Rightarrow> cell \<Rightarrow> int" where
  "code_of cats c = (if c = NaN then - 1 else int (index_of cats c))"

record categorical =
  categories :: "cell list"
  codes :: "int list"

definition unique_sorted :: "cell list \<Rightarrow> cell list" where
  "unique_sorted xs = sort_key cell_key (remdups (filter (\<lambda>c. c \<noteq> NaN) xs))"

definition astype_category :: "cell list \<Rightarrow> categorical" where
  "astype_category xs =
     \<lparr>categories = unique_sorted xs, codes = map (code_of (unique_sorted xs)) xs\<rparr>"

text \<open>\<^verbatim>\<open>x.cat.codes\<close>: the codes, as a column of integers.\<close>

definition cat_codes :: "categorical \<Rightarrow> cell list" where
  "cat_codes x = map (\<lambda>k. Num (of_int k)) (codes x)"

text \<open>
  \<^verbatim>\<open>df[c] = v\<close>: column \<open>c\<close> is replaced where it stands, or added last when the frame
  has no such column.
\<close>

definition setitem :: "table \<Rightarrow> string \<Rightarrow> cell list \<Rightarrow> table" where
  "setitem t c v =
     t\<lparr>columns :=
        (if c \<in> set (names t)
         then map (\<lambda>(n, xs). (n, if n = c then v else xs)) (columns t)
         else columns t @ [(c, v)])\<rparr>"

text \<open>
  \<^verbatim>\<open>df.iloc[start:stop, :]\<close>: the rows at positions \<open>start\<close> up to \<open>stop\<close> (to the end
  when no stop is given), clipped to the frame as a Python slice is.
\<close>

definition slice :: "nat \<Rightarrow> nat option \<Rightarrow> 'a list \<Rightarrow> 'a list" where
  "slice start stop xs =
     (case stop of None \<Rightarrow> drop start xs | Some e \<Rightarrow> take (e - start) (drop start xs))"

definition iloc :: "nat \<Rightarrow> nat option \<Rightarrow> table \<Rightarrow> table" where
  "iloc start stop t =
     \<lparr>index = slice start stop (index t),
      columns = map (\<lambda>(c, xs). (c, slice start stop xs)) (columns t)\<rparr>"

text \<open>
  \<^verbatim>\<open>pd.Series(data, index=labels)\<close>: the values paired with the labels by position;
  a \<^verbatim>\<open>ValueError\<close> when the two lengths differ.
\<close>

definition Series :: "'p list \<Rightarrow> cell list \<Rightarrow> error + (cell \<times> 'p) list" where
  "Series data labels =
     (if length data = length labels then Inr (zip labels data) else Inl ValueError)"

section \<open>The script\<close>

definition train_drop :: "string list" where
  "train_drop = [''payment_amount'', ''payment_date'', ''payment_status'', ''balance_due'',
     ''collection_status'', ''grafitti_status'', ''compliance_detail'', ''compliance'']"

definition common_drop :: "string list" where
  "common_drop = [''clean_up_cost'', ''city'', ''grafitti_status'', ''discount_amount'',
     ''violation_street_number'', ''violation_description'', ''ticket_issued_date'',
     ''hearing_date'', ''state'', ''zip_code'', ''non_us_str_code'', ''country'',
     ''violator_name'', ''violator_name'', ''violation_zip_code'',
     ''mailing_address_str_number'', ''mailing_address_str_name'']"

definition cat_columns :: "string list" where
  "cat_columns = [''agency_name'', ''inspector_name'', ''violation_street_name'',
     ''violation_code'', ''disposition'']"

text \<open>
  \<^verbatim>\<open>train = train[(train['compliance'] == 1.0) | (train['compliance'] == 0.0)]\<close>
\<close>

definition compliance_filter :: "table \<Rightarrow> error + table" where
  "compliance_filter train =
     bindE (getitem train ''compliance'') (\<lambda>c1.
     bindE (getitem train ''compliance'') (\<lambda>c0.
       Inr (getitem_mask train (or_mask (eq_scalar c1 1) (eq_scalar c0 0)))))"

text \<open>
  The first code cell after loading: filter, take the labels, drop the columns that
  leak the outcome, and put the evaluation rows below the training rows. It leaves
  \<^verbatim>\<open>train\<close>, \<^verbatim>\<open>train_label\<close> and \<^verbatim>\<open>df\<close>.
\<close>

definition load_data :: "table \<Rightarrow> table \<Rightarrow> error + (table \<times> cell list \<times> table)" where
  "load_data train0 test =
     bindE (compliance_filter train0) (\<lambda>train.
     bindE (getitem train ''compliance'') (\<lambda>train_label.
     bindE (drop_axis1 train_drop train) (\<lambda>train.
       Inr (train, train_label, pd_concat train test))))"

text \<open>
  \<^verbatim>\<open>for col in cat_columns: df[col] = df[col].astype('category')\<close>, then
  \<^verbatim>\<open>df[cat_columns] = df[cat_columns].apply(lambda x: x.cat.codes)\<close>.
  The first loop makes every named column categorical, and fails on the first name
  that is no column; the assignment then puts the codes in place of each. A
  categorical column exists only between the two statements, so the model hands the
  categoricals from the first to the second.
\<close>

fun astype_category_cols :: "string list \<Rightarrow> table \<Rightarrow> error + (string \<times> categorical) list" where
  "astype_category_cols [] t = Inr []"
| "astype_category_cols (col # cols) t =
     bindE (getitem t col) (\<lambda>xs.
     bindE (astype_category_cols cols t) (\<lambda>rest.
       Inr ((col, astype_category xs) # rest)))"

fun assign_codes :: "(string \<times> categorical) list \<Rightarrow> table \<Rightarrow> table" where
  "assign_codes [] t = t"
| "assign_codes ((col, x) # rest) t = assign_codes rest (setitem t col (cat_codes x))"

definition to_codes :: "string list \<Rightarrow> table \<Rightarrow> error + table" where
  "to_codes cols df = bindE (astype_category_cols cols df) (\<lambda>cs. Inr (assign_codes cs df))"

text \<open>
  \<^verbatim>\<open>X_train = df.iloc[0:len(train),:]\<close>, \<^verbatim>\<open>y_train = train_label\<close>,
  \<^verbatim>\<open>X_test = df.iloc[len(train):,:]\<close>.
\<close>

definition split_back :: "table \<Rightarrow> cell list \<Rightarrow> table \<Rightarrow> table \<times> cell list \<times> table" where
  "split_back train train_label df =
     (iloc 0 (Some (len train)) df, train_label, iloc (len train) None df)"

text \<open>The cells up to the split, in the notebook's order.\<close>

definition prepare :: "table \<Rightarrow> table \<Rightarrow> error + (table \<times> cell list \<times> table)" where
  "prepare train0 test =
     bindE (load_data train0 test) (\<lambda>(train, train_label, df).
     bindE (drop_axis1 common_drop df) (\<lambda>df.
     bindE (set_index ''ticket_id'' df) (\<lambda>df.
     bindE (to_codes cat_columns df) (\<lambda>df.
       Inr (split_back train train_label df)))))"

text \<open>
  The grid search, the fit and \<^verbatim>\<open>predict_proba\<close> belong to scikit-learn: the script
  only calls them. They are the parameter \<open>fit_predict\<close>, which is given
  \<^verbatim>\<open>X_train\<close>, \<^verbatim>\<open>y_train\<close> and \<^verbatim>\<open>X_test\<close> and returns the rows of \<^verbatim>\<open>result\<close>, each the
  probabilities of class 0 and of class 1, or fails. The type \<open>'p\<close> of a probability
  is left open: the script never looks into one.
  \<^verbatim>\<open>ans = pd.Series(result[:,1], index=X_test.index)\<close>
\<close>

definition pipeline ::
  "(table \<Rightarrow> cell list \<Rightarrow> table \<Rightarrow> error + ('p \<times> 'p) list) \<Rightarrow> table \<Rightarrow> table
     \<Rightarrow> error + (cell \<times> 'p) list" where
  "pipeline fit_predict train0 test =
     bindE (prepare train0 test) (\<lambda>(X_train, y_train, X_test).
     bindE (fit_predict X_train y_train X_test) (\<lambda>result.
       Series (map snd result) (index X_test)))"

section \<open>The vocabulary in two phases\<close>

text \<open>
  The specification's two phases of the encoder: the vocabulary of a column is built by
  \<^const>\<open>unique_sorted\<close>, and applying a vocabulary to a column maps every value to
  its code. The categorical conversion of the script is the two together.
\<close>

definition apply_vocabulary :: "cell list \<Rightarrow> cell list \<Rightarrow> cell list" where
  "apply_vocabulary vocab xs = map (\<lambda>v. Num (of_int (code_of vocab v))) xs"

text \<open>
  A column of the encoded frame, cut to one partition: \<open>whole\<close> is the column over
  the training and the evaluation rows together, \<open>part\<close> the rows of one partition.
  A column named for encoding holds the codes of the partition's values in the
  vocabulary of the whole column; any other column is left as it is.
\<close>

definition encoded :: "string list \<Rightarrow> string \<Rightarrow> cell list \<Rightarrow> cell list \<Rightarrow> cell list" where
  "encoded cols c whole part =
     (if c \<in> set cols then apply_vocabulary (unique_sorted whole) part else part)"

section \<open>Example frames\<close>

text \<open>A frame with the column \<open>A, B, A\<close>, and what the encoder makes of it.\<close>

definition letters_frame :: table where
  "letters_frame =
     \<lparr>index = [Num 0, Num 1, Num 2],
      columns = [(''letter'', [Str ''A'', Str ''B'', Str ''A'']),
                 (''fine_amount'', [Num 250, Num 50, Num 250])]\<rparr>"

definition letters_codes :: table where
  "letters_codes =
     \<lparr>index = [Num 0, Num 1, Num 2],
      columns = [(''letter'', [Num 0, Num 1, Num 0]),
                 (''fine_amount'', [Num 250, Num 50, Num 250])]\<rparr>"

text \<open>The same with a missing value in the column.\<close>

definition gaps_frame :: table where
  "gaps_frame =
     \<lparr>index = [Num 0, Num 1, Num 2, Num 3],
      columns = [(''letter'', [Str ''B'', NaN, Str ''A'', Str ''B'']),
                 (''fine_amount'', [Num 250, Num 50, Num 250, Num 100])]\<rparr>"

definition gaps_codes :: table where
  "gaps_codes =
     \<lparr>index = [Num 0, Num 1, Num 2, Num 3],
      columns = [(''letter'', [Num 1, Num (- 1), Num 0, Num 1]),
                 (''fine_amount'', [Num 250, Num 50, Num 250, Num 100])]\<rparr>"

text \<open>
  Six training rows, four of them with a defined outcome, and three evaluation rows
  with the ticket numbers 285362, 285361 and 285338.
\<close>

definition demo_train :: table where
  "demo_train =
     \<lparr>index = [Num 0, Num 1, Num 2, Num 3, Num 4, Num 5],
      columns =
        [(''ticket_id'', [Num 22056, Num 27586, Num 22062, Num 22084, Num 22093, Num 22046]),
         (''agency_name'', [Str ''B'', Str ''A'', Str ''B'', Str ''A'', NaN, Str ''A'']),
         (''inspector_name'',
            [Str ''Sims'', Str ''Williams'', Str ''Sims'', Str ''Sims'', Str ''Sims'', Str ''Sims'']),
         (''violation_street_name'',
            [Str ''TYLER'', Str ''CENTRAL'', Str ''TYLER'', Str ''TYLER'', Str ''TYLER'', Str ''TYLER'']),
         (''violation_code'',
            [Str ''9-1-36(a)'', Str ''61-63.0600'', Str ''9-1-36(a)'', Str ''9-1-36(a)'',
             Str ''9-1-36(a)'', Str ''9-1-36(a)'']),
         (''disposition'',
            [Str ''Responsible by Default'', Str ''Responsible by Determination'',
             Str ''Not responsible by Dismissal'', Str ''Responsible by Default'',
             Str ''Not responsible by Dismissal'', Str ''Responsible by Default'']),
         (''fine_amount'', [Num 250, Num 750, Num 250, Num 250, Num 750, Num 250]),
         (''compliance'', [Num 0, Num 1, NaN, Num 0, Num 2, Num 1])]
        @ map (\<lambda>c. (c, replicate 6 NaN))
            (remdups common_drop @
             [''payment_amount'', ''payment_date'', ''payment_status'', ''balance_due'',
              ''collection_status'', ''compliance_detail''])\<rparr>"

definition demo_test :: table where
  "demo_test =
     \<lparr>index = [Num 0, Num 1, Num 2],
      columns =
        [(''ticket_id'', [Num 285362, Num 285361, Num 285338]),
         (''agency_name'', [Str ''A'', Str ''C'', Str ''B'']),
         (''inspector_name'', [Str ''Sims'', Str ''Zizi'', NaN]),
         (''violation_street_name'', [Str ''TYLER'', Str ''ADAMS'', Str ''TYLER'']),
         (''violation_code'', [Str ''9-1-36(a)'', Str ''22-2-88'', Str ''9-1-36(a)'']),
         (''disposition'',
            [Str ''Responsible by Default'', Str ''Responsible by Default'',
             Str ''Responsible by Default'']),
         (''fine_amount'', [Num 250, Num 100, Num 250])]
        @ map (\<lambda>c. (c, replicate 3 NaN)) (remdups common_drop)\<rparr>"

text \<open>
  What the script makes of them: the training frame after the filter and the first
  drop, and the three results of the split.
\<close>

definition demo_kept :: table where
  "demo_kept =
     \<lparr>index = [Num 0, Num 1, Num 3, Num 5],
      columns =
        [(''ticket_id'', [Num 22056, Num 27586, Num 22084, Num 22046]),
         (''agency_name'', [Str ''B'', Str ''A'', Str ''A'', Str ''A'']),
         (''inspector_name'', [Str ''Sims'', Str ''Williams'', Str ''Sims'', Str ''Sims'']),
         (''violation_street_name'', [Str ''TYLER'', Str ''CENTRAL'', Str ''TYLER'', Str ''TYLER'']),
         (''violation_code'',
            [Str ''9-1-36(a)'', Str ''61-63.0600'', Str ''9-1-36(a)'', Str ''9-1-36(a)'']),
         (''disposition'',
            [Str ''Responsible by Default'', Str ''Responsible by Determination'',
             Str ''Responsible by Default'', Str ''Responsible by Default'']),
         (''fine_amount'', [Num 250, Num 750, Num 250, Num 250])]
        @ map (\<lambda>c. (c, replicate 4 NaN))
            (filter (\<lambda>c. c \<noteq> ''grafitti_status'') (remdups common_drop))\<rparr>"

definition demo_X_train :: table where
  "demo_X_train =
     \<lparr>index = [Num 22056, Num 27586, Num 22084, Num 22046],
      columns =
        [(''agency_name'', [Num 1, Num 0, Num 0, Num 0]),
         (''inspector_name'', [Num 0, Num 1, Num 0, Num 0]),
         (''violation_street_name'', [Num 2, Num 1, Num 2, Num 2]),
         (''violation_code'', [Num 2, Num 1, Num 2, Num 2]),
         (''disposition'', [Num 0, Num 1, Num 0, Num 0]),
         (''fine_amount'', [Num 250, Num 750, Num 250, Num 250])]\<rparr>"

definition demo_y_train :: "cell list" where
  "demo_y_train = [Num 0, Num 1, Num 0, Num 1]"

definition demo_X_test :: table where
  "demo_X_test =
     \<lparr>index = [Num 285362, Num 285361, Num 285338],
      columns =
        [(''agency_name'', [Num 0, Num 2, Num 1]),
         (''inspector_name'', [Num 0, Num 2, Num (- 1)]),
         (''violation_street_name'', [Num 2, Num 0, Num 2]),
         (''violation_code'', [Num 2, Num 0, Num 2]),
         (''disposition'', [Num 0, Num 0, Num 0]),
         (''fine_amount'', [Num 250, Num 100, Num 250])]\<rparr>"

text \<open>A stand-in for the fitted model: three rows of class probabilities.\<close>

definition demo_fit_predict :: "table \<Rightarrow> cell list \<Rightarrow> table \<Rightarrow> error + (rat \<times> rat) list" where
  "demo_fit_predict X y T = Inr [(981563 / 1000000, 18437 / 1000000),
     (945521 / 1000000, 54479 / 1000000), (951149 / 1000000, 48851 / 1000000)]"

section \<open>Lemmas\<close>

subsection \<open>Error plumbing\<close>

lemma bindE_Inr_iff: "bindE m f = Inr y \<longleftrightarrow> (\<exists>x. m = Inr x \<and> f x = Inr y)"
  by (cases m) (simp_all add: bindE_def)

lemma getitem_Inr_iff: "getitem t c = Inr xs \<longleftrightarrow> map_of (columns t) c = Some xs"
  by (simp add: getitem_def split: option.splits)

lemma map_of_names_iff: "map_of (columns t) c \<noteq> None \<longleftrightarrow> c \<in> set (names t)"
  by (simp add: names_def map_of_eq_None_iff)

lemma map_of_Some_names: "map_of (columns t) c = Some xs \<Longrightarrow> c \<in> set (names t)"
  using map_of_names_iff [of t c] by simp

lemma column_or_nan_Some: "map_of (columns t) c = Some xs \<Longrightarrow> column_or_nan t c = xs"
  by (simp add: column_or_nan_def)

lemma wf_table_length:
  "wf_table t \<Longrightarrow> map_of (columns t) c = Some xs \<Longrightarrow> length xs = len t"
  by (auto simp: wf_table_def list_all_iff dest: map_of_SomeD)

lemma length_column_or_nan: "wf_table t \<Longrightarrow> length (column_or_nan t c) = len t"
  by (auto simp: column_or_nan_def wf_table_length split: option.splits)

subsection \<open>Categories and codes\<close>

lemma distinct_unique_sorted: "distinct (unique_sorted xs)"
  by (simp add: unique_sorted_def)

lemma set_unique_sorted: "set (unique_sorted xs) = set xs - {NaN}"
  by (auto simp: unique_sorted_def)

lemma sorted_unique_sorted: "sorted (map cell_key (unique_sorted xs))"
  by (simp add: unique_sorted_def)

lemma index_of_less: "x \<in> set ys \<Longrightarrow> index_of ys x < length ys"
  by (induction ys) auto

lemma nth_index_of: "x \<in> set ys \<Longrightarrow> ys ! index_of ys x = x"
  by (induction ys) auto

lemma index_of_nth: "distinct ys \<Longrightarrow> k < length ys \<Longrightarrow> index_of ys (ys ! k) = k"
proof (induction ys arbitrary: k)
  case Nil
  then show ?case by simp
next
  case (Cons y ys)
  then show ?case by (cases k) auto
qed

lemma code_of_NaN: "code_of cats NaN = - 1"
  by (simp add: code_of_def)

lemma code_of_present:
  assumes "v \<in> set xs" "v \<noteq> NaN"
  shows "0 \<le> code_of (unique_sorted xs) v"
    and "code_of (unique_sorted xs) v < int (length (unique_sorted xs))"
    and "unique_sorted xs ! nat (code_of (unique_sorted xs) v) = v"
proof -
  from assms have mem: "v \<in> set (unique_sorted xs)" by (simp add: set_unique_sorted)
  show "0 \<le> code_of (unique_sorted xs) v" using assms by (simp add: code_of_def)
  show "code_of (unique_sorted xs) v < int (length (unique_sorted xs))"
    using assms index_of_less [OF mem] by (simp add: code_of_def)
  show "unique_sorted xs ! nat (code_of (unique_sorted xs) v) = v"
    using assms nth_index_of [OF mem] by (simp add: code_of_def)
qed

lemma code_of_category:
  assumes "k < length (unique_sorted xs)"
  shows "code_of (unique_sorted xs) (unique_sorted xs ! k) = int k"
proof -
  have "unique_sorted xs ! k \<in> set (unique_sorted xs)" using assms by simp
  then have "unique_sorted xs ! k \<noteq> NaN" by (simp add: set_unique_sorted)
  then show ?thesis
    using index_of_nth [OF distinct_unique_sorted assms] by (simp add: code_of_def)
qed

lemma cat_codes_astype: "cat_codes (astype_category xs) = apply_vocabulary (unique_sorted xs) xs"
  by (simp add: cat_codes_def astype_category_def apply_vocabulary_def)

lemma apply_vocabulary_append:
  "apply_vocabulary vocab (xs @ ys) = apply_vocabulary vocab xs @ apply_vocabulary vocab ys"
  by (simp add: apply_vocabulary_def)

lemma length_apply_vocabulary: "length (apply_vocabulary vocab xs) = length xs"
  by (simp add: apply_vocabulary_def)

subsection \<open>Each call, on the index and the columns\<close>

lemma map_of_map_snd:
  "map_of (map (\<lambda>(c, xs). (c, f xs)) ps) c = map_option f (map_of ps c)"
  by (induction ps) auto

lemma map_of_tabulate:
  "map_of (map (\<lambda>c. (c, f c)) ns) c = (if c \<in> set ns then Some (f c) else None)"
  by (induction ns) auto

lemma map_of_filter_fst:
  "map_of (filter (\<lambda>(n, xs). P n) ps) c = (if P c then map_of ps c else None)"
  by (induction ps) auto

lemma map_fst_filter_fst:
  "map fst (filter (\<lambda>(n, xs). P n) ps) = filter P (map fst ps)"
  by (induction ps) auto

lemma length_select:
  "length m = length xs \<Longrightarrow> length (select m xs) = length (filter (\<lambda>b. b) m)"
proof (induction m arbitrary: xs)
  case Nil
  then show ?case by (simp add: select_def)
next
  case (Cons b m)
  then obtain y ys where "xs = y # ys" by (cases xs) auto
  with Cons show ?case by (simp add: select_def)
qed

lemma select_map_zip:
  "select (map P cs) xs = map snd (filter (\<lambda>(y, x). P y) (zip cs xs))"
proof (induction cs arbitrary: xs)
  case Nil
  then show ?case by (simp add: select_def)
next
  case (Cons c cs)
  then show ?case by (cases xs) (auto simp: select_def)
qed

lemma select_map_self: "select (map P cs) cs = filter P cs"
  by (induction cs) (auto simp: select_def)

text \<open>Boolean indexing.\<close>

lemma names_getitem_mask: "names (getitem_mask t m) = names t"
  by (simp add: getitem_mask_def names_def comp_def case_prod_unfold)

lemma map_of_getitem_mask:
  "map_of (columns (getitem_mask t m)) c = map_option (select m) (map_of (columns t) c)"
  by (simp add: getitem_mask_def map_of_map_snd)

lemma wf_getitem_mask:
  assumes "wf_table t" "length m = len t"
  shows "wf_table (getitem_mask t m)"
proof -
  have "length (select m xs) = length (select m (index t))"
    if "(c, xs) \<in> set (columns t)" for c xs
  proof -
    from assms(1) that have "length xs = len t"
      by (auto simp: wf_table_def list_all_iff)
    with assms(2) show ?thesis by (simp add: length_select len_def)
  qed
  moreover have "distinct (names (getitem_mask t m))"
    using assms(1) by (simp add: names_getitem_mask wf_table_def)
  ultimately show ?thesis
    by (auto simp: wf_table_def list_all_iff len_def getitem_mask_def)
qed

text \<open>Dropping columns.\<close>

lemma drop_axis1_missing:
  "filter (\<lambda>l. l \<notin> set (names t)) labels = [] \<longleftrightarrow> set labels \<subseteq> set (names t)"
  by (auto simp: filter_empty_conv)

lemma drop_axis1_Inr_iff:
  "drop_axis1 labels t = Inr t' \<longleftrightarrow>
     set labels \<subseteq> set (names t) \<and>
     t' = t\<lparr>columns := filter (\<lambda>(c, xs). c \<notin> set labels) (columns t)\<rparr>"
proof (cases "filter (\<lambda>l. l \<notin> set (names t)) labels")
  case Nil
  then show ?thesis
    using drop_axis1_missing [of t labels] by (auto simp: drop_axis1_def)
next
  case (Cons l ls)
  then show ?thesis
    using drop_axis1_missing [of t labels] by (auto simp: drop_axis1_def)
qed

lemma drop_axis1_Inl_iff:
  "(\<exists>e. drop_axis1 labels t = Inl e) \<longleftrightarrow> \<not> set labels \<subseteq> set (names t)"
proof (cases "filter (\<lambda>l. l \<notin> set (names t)) labels")
  case Nil
  then show ?thesis
    using drop_axis1_missing [of t labels] by (auto simp: drop_axis1_def)
next
  case (Cons l ls)
  then show ?thesis
    using drop_axis1_missing [of t labels] by (auto simp: drop_axis1_def)
qed

lemma drop_axis1_facts:
  assumes "drop_axis1 labels t = Inr t'"
  shows "index t' = index t"
    and "len t' = len t"
    and "names t' = filter (\<lambda>c. c \<notin> set labels) (names t)"
    and "map_of (columns t') c = (if c \<in> set labels then None else map_of (columns t) c)"
  using assms
  by (simp_all add: drop_axis1_Inr_iff len_def names_def map_fst_filter_fst map_of_filter_fst)

lemma wf_drop_axis1:
  assumes "wf_table t" "drop_axis1 labels t = Inr t'"
  shows "wf_table t'"
  using assms
  by (auto simp: wf_table_def list_all_iff drop_axis1_facts(2,3) drop_axis1_Inr_iff)

text \<open>Concatenation.\<close>

lemma map_of_pd_concat:
  "map_of (columns (pd_concat a b)) c =
     (if c \<in> set (names a) \<or> c \<in> set (names b)
      then Some (column_or_nan a c @ column_or_nan b c) else None)"
proof -
  have "map_of (columns (pd_concat a b)) c =
      (if c \<in> set (names a @ filter (\<lambda>c. c \<notin> set (names a)) (names b))
       then Some (column_or_nan a c @ column_or_nan b c) else None)"
    unfolding pd_concat_def table.simps by (rule map_of_tabulate)
  then show ?thesis by auto
qed

lemma pd_concat_facts:
  shows "index (pd_concat a b) = index a @ index b"
    and "len (pd_concat a b) = len a + len b"
    and "names (pd_concat a b) = names a @ filter (\<lambda>c. c \<notin> set (names a)) (names b)"
  by (simp_all add: pd_concat_def len_def names_def comp_def)

lemma wf_pd_concat:
  assumes "wf_table a" "wf_table b"
  shows "wf_table (pd_concat a b)"
proof -
  have "distinct (names (pd_concat a b))"
    using assms by (auto simp: pd_concat_facts(3) wf_table_def)
  moreover have "length xs = len (pd_concat a b)" if "(c, xs) \<in> set (columns (pd_concat a b))" for c xs
  proof -
    from that have "xs = column_or_nan a c @ column_or_nan b c"
      by (auto simp: pd_concat_def)
    then show ?thesis
      using assms by (simp add: length_column_or_nan pd_concat_facts(2))
  qed
  ultimately show ?thesis by (auto simp: wf_table_def list_all_iff)
qed

text \<open>Setting the index.\<close>

lemma set_index_Inr_iff:
  "set_index c t = Inr t' \<longleftrightarrow>
     (\<exists>xs. map_of (columns t) c = Some xs \<and>
           t' = \<lparr>index = xs, columns = filter (\<lambda>(n, ys). n \<noteq> c) (columns t)\<rparr>)"
  by (auto simp: set_index_def split: option.splits)

lemma set_index_facts:
  assumes "set_index k t = Inr t'"
  shows "index t' = column_or_nan t k"
    and "names t' = filter (\<lambda>c. c \<noteq> k) (names t)"
    and "map_of (columns t') c = (if c = k then None else map_of (columns t) c)"
  using assms
  by (auto simp: set_index_Inr_iff names_def map_fst_filter_fst map_of_filter_fst
      column_or_nan_def)

lemma wf_set_index:
  assumes "wf_table t" "set_index k t = Inr t'"
  shows "wf_table t'" and "len t' = len t"
proof -
  from assms(2) obtain xs where xs: "map_of (columns t) k = Some xs"
    and t': "t' = \<lparr>index = xs, columns = filter (\<lambda>(n, ys). n \<noteq> k) (columns t)\<rparr>"
    by (auto simp: set_index_Inr_iff)
  from assms(1) xs have "length xs = len t" by (rule wf_table_length)
  then show "len t' = len t" by (simp add: t' len_def)
  with assms show "wf_table t'"
    by (auto simp: wf_table_def list_all_iff set_index_facts(2) t')
qed

text \<open>Assigning a column that exists.\<close>

lemma setitem_facts:
  assumes "c \<in> set (names t)"
  shows "index (setitem t c v) = index t"
    and "names (setitem t c v) = names t"
    and "map_of (columns (setitem t c v)) c' = (if c' = c then Some v else map_of (columns t) c')"
proof -
  have cols: "columns (setitem t c v) =
      map (\<lambda>(n, xs). (n, if n = c then v else xs)) (columns t)"
    using assms by (simp add: setitem_def)
  show "index (setitem t c v) = index t" by (simp add: setitem_def)
  have "map fst (map (\<lambda>(n, xs). (n, if n = c then v else xs)) ps) = map fst ps" for ps
    by (induction ps) (simp_all add: case_prod_unfold)
  then show "names (setitem t c v) = names t"
    unfolding names_def cols .
  have upd: "map_of (map (\<lambda>(n, xs). (n, if n = c then v else xs)) ps) c' =
      map_option (\<lambda>xs. if c' = c then v else xs) (map_of ps c')" for ps
    by (induction ps) (simp_all add: case_prod_unfold)
  from assms obtain ys where "map_of (columns t) c = Some ys"
    using map_of_names_iff [of t c] by auto
  then show "map_of (columns (setitem t c v)) c' =
      (if c' = c then Some v else map_of (columns t) c')"
    unfolding cols upd by (cases "map_of (columns t) c'") auto
qed

text \<open>The two statements of the encoding cell.\<close>

lemma astype_category_cols_Inr:
  "astype_category_cols cols t = Inr cs \<Longrightarrow>
     set cols \<subseteq> set (names t) \<and>
     cs = map (\<lambda>c. (c, astype_category (column_or_nan t c))) cols"
proof (induction cols arbitrary: cs)
  case Nil
  then show ?case by simp
next
  case (Cons col cols)
  from Cons.prems obtain xs rest where xs: "getitem t col = Inr xs"
    and rest: "astype_category_cols cols t = Inr rest"
    and cs: "cs = (col, astype_category xs) # rest"
    by (auto simp: bindE_Inr_iff)
  from xs have "map_of (columns t) col = Some xs" by (simp add: getitem_Inr_iff)
  then have "col \<in> set (names t)" "column_or_nan t col = xs"
    by (simp_all add: map_of_Some_names column_or_nan_Some)
  with Cons.IH [OF rest] cs show ?case by simp
qed

lemma astype_category_cols_total:
  "set cols \<subseteq> set (names t) \<Longrightarrow> \<exists>cs. astype_category_cols cols t = Inr cs"
proof (induction cols)
  case Nil
  then show ?case by simp
next
  case (Cons col cols)
  then have "col \<in> set (names t)" by simp
  then obtain xs where "map_of (columns t) col = Some xs"
    using map_of_names_iff [of t col] by auto
  then have "getitem t col = Inr xs" by (simp add: getitem_Inr_iff)
  with Cons show ?case by (auto simp: bindE_def)
qed

lemma assign_codes_facts:
  assumes "\<forall>(c, x) \<in> set cs. c \<in> set (names t) \<and> x = F c"
  shows "index (assign_codes cs t) = index t \<and> names (assign_codes cs t) = names t \<and>
         (\<forall>c. map_of (columns (assign_codes cs t)) c =
           (if c \<in> fst ` set cs then Some (cat_codes (F c)) else map_of (columns t) c))"
  using assms
proof (induction cs arbitrary: t)
  case Nil
  then show ?case by simp
next
  case (Cons p cs)
  from Cons.prems have col: "fst p \<in> set (names t)" and p: "p = (fst p, F (fst p))"
    by (auto simp: prod_eq_iff)
  define u where "u = setitem t (fst p) (cat_codes (F (fst p)))"
  have si: "index u = index t" "names u = names t"
    "\<And>c. map_of (columns u) c =
       (if c = fst p then Some (cat_codes (F (fst p))) else map_of (columns t) c)"
    unfolding u_def using setitem_facts [OF col] by simp_all
  from Cons.prems have "\<forall>(c, x) \<in> set cs. c \<in> set (names u) \<and> x = F c"
    by (simp add: si(2))
  note ih = Cons.IH [OF this]
  have step: "assign_codes (p # cs) t = assign_codes cs u"
    by (subst p) (simp add: u_def)
  have "map_of (columns (assign_codes cs u)) c =
      (if c \<in> fst ` set (p # cs) then Some (cat_codes (F c)) else map_of (columns t) c)" for c
    using ih by (simp add: si(3))
  with ih show ?case
    unfolding step by (simp only: si(1,2)) simp
qed

lemma to_codes_facts:
  assumes "to_codes cols t = Inr t'"
  shows "index t' = index t"
    and "len t' = len t"
    and "names t' = names t"
    and "set cols \<subseteq> set (names t)"
    and "map_of (columns t') c =
           (if c \<in> set cols
            then Some (apply_vocabulary (unique_sorted (column_or_nan t c)) (column_or_nan t c))
            else map_of (columns t) c)"
proof -
  from assms obtain cs where cs: "astype_category_cols cols t = Inr cs"
    and t': "t' = assign_codes cs t"
    by (auto simp: to_codes_def bindE_Inr_iff)
  note ac = astype_category_cols_Inr [OF cs]
  let ?F = "\<lambda>c. astype_category (column_or_nan t c)"
  from ac have "\<forall>(c, x) \<in> set cs. c \<in> set (names t) \<and> x = ?F c" by auto
  note af = assign_codes_facts [OF this]
  from ac have fst_cs: "fst ` set cs = set cols" by force
  show "index t' = index t" using af by (simp add: t')
  then show "len t' = len t" by (simp add: len_def)
  show "names t' = names t" using af by (simp add: t')
  show "set cols \<subseteq> set (names t)" using ac by simp
  show "map_of (columns t') c =
           (if c \<in> set cols
            then Some (apply_vocabulary (unique_sorted (column_or_nan t c)) (column_or_nan t c))
            else map_of (columns t) c)"
    using af by (simp add: t' fst_cs cat_codes_astype)
qed

lemma to_codes_total:
  "set cols \<subseteq> set (names t) \<Longrightarrow> \<exists>t'. to_codes cols t = Inr t'"
  using astype_category_cols_total [of cols t] by (auto simp: to_codes_def bindE_def)

lemma wf_to_codes:
  assumes "wf_table t" "to_codes cols t = Inr t'"
  shows "wf_table t'"
proof -
  note tc = to_codes_facts [OF assms(2)]
  have "length xs = len t'" if "(c, xs) \<in> set (columns t')" for c xs
  proof -
    from assms(1) have "distinct (map fst (columns t'))"
      by (simp add: wf_table_def tc(3) [unfolded names_def] names_def)
    with that have "map_of (columns t') c = Some xs" by simp
    then show ?thesis
      using assms(1)
      by (auto simp: tc(5) tc(2) length_apply_vocabulary length_column_or_nan wf_table_length
          split: if_splits)
  qed
  then show ?thesis
    using assms(1) by (auto simp: wf_table_def list_all_iff tc(3))
qed

text \<open>Slicing by position.\<close>

lemma iloc_facts:
  shows "index (iloc i j t) = slice i j (index t)"
    and "names (iloc i j t) = names t"
    and "map_of (columns (iloc i j t)) c = map_option (slice i j) (map_of (columns t) c)"
  by (simp_all add: iloc_def names_def comp_def case_prod_unfold map_of_map_snd
      map_of_map_snd [unfolded case_prod_unfold])

lemma slice_append:
  "slice 0 (Some (length xs)) (xs @ ys) = xs" "slice (length xs) None (xs @ ys) = ys"
  by (simp_all add: slice_def)

subsection \<open>The filter\<close>

lemma compliance_mask:
  "or_mask (eq_scalar cs 1) (eq_scalar cs 0) = map (\<lambda>y. y = Num 1 \<or> y = Num 0) cs"
  by (induction cs) (simp_all add: or_mask_def eq_scalar_def)

lemma compliance_filter_Inr_iff:
  "compliance_filter train = Inr t' \<longleftrightarrow>
     (\<exists>cs. map_of (columns train) ''compliance'' = Some cs \<and>
           t' = getitem_mask train (map (\<lambda>y. y = Num 1 \<or> y = Num 0) cs))"
  by (auto simp: compliance_filter_def bindE_Inr_iff getitem_Inr_iff compliance_mask)

lemma compliance_filter_facts:
  assumes "wf_table train0" "compliance_filter train0 = Inr tr"
  shows "wf_table tr"
    and "names tr = names train0"
proof -
  from assms(2) obtain cs where cs: "map_of (columns train0) ''compliance'' = Some cs"
    and tr: "tr = getitem_mask train0 (map (\<lambda>y. y = Num 1 \<or> y = Num 0) cs)"
    by (auto simp: compliance_filter_Inr_iff)
  from assms(1) cs have "length cs = len train0" by (rule wf_table_length)
  with assms(1) show "wf_table tr" by (simp add: tr wf_getitem_mask)
  show "names tr = names train0" by (simp add: tr names_getitem_mask)
qed

subsection \<open>Codes tell values apart\<close>

lemma code_of_inj:
  assumes "x \<in> set xs" "y \<in> set xs"
  shows "code_of (unique_sorted xs) x = code_of (unique_sorted xs) y \<longleftrightarrow> x = y"
proof
  let ?f = "code_of (unique_sorted xs)"
  assume eq: "?f x = ?f y"
  have neg: "?f v < 0 \<longleftrightarrow> v = NaN" if "v \<in> set xs" for v
  proof (cases "v = NaN")
    case True
    then show ?thesis by (simp add: code_of_NaN)
  next
    case False
    with code_of_present(1) [OF that] show ?thesis by simp
  qed
  show "x = y"
  proof (cases "x = NaN")
    case True
    then have "?f x < 0" using neg [OF assms(1)] by simp
    then have "?f y < 0" unfolding eq .
    then have "y = NaN" using neg [OF assms(2)] by simp
    with True show ?thesis by simp
  next
    case False
    then have "\<not> ?f x < 0" using neg [OF assms(1)] by simp
    then have "\<not> ?f y < 0" unfolding eq .
    then have ynan: "y \<noteq> NaN" using neg [OF assms(2)] by simp
    have "x = unique_sorted xs ! nat (?f x)"
      using code_of_present(3) [OF assms(1) False] by simp
    also have "\<dots> = unique_sorted xs ! nat (?f y)" unfolding eq ..
    also have "\<dots> = y" using code_of_present(3) [OF assms(2) ynan] .
    finally show ?thesis .
  qed
next
  assume "x = y"
  then show "code_of (unique_sorted xs) x = code_of (unique_sorted xs) y"
    by (rule arg_cong)
qed

lemma apply_vocabulary_nth_eq_iff:
  assumes "i < length xs" "j < length xs"
  shows "apply_vocabulary (unique_sorted xs) xs ! i = apply_vocabulary (unique_sorted xs) xs ! j
           \<longleftrightarrow> xs ! i = xs ! j"
proof -
  from assms have "xs ! i \<in> set xs" "xs ! j \<in> set xs" by simp_all
  from code_of_inj [OF this] assms show ?thesis
    by (simp add: apply_vocabulary_def)
qed

lemma length_encoded: "length (encoded cols c whole part) = length part"
  by (simp add: encoded_def length_apply_vocabulary)

subsection \<open>Splitting by position and joining again\<close>

lemma tabulate_the_map_of:
  "distinct (map fst ps) \<Longrightarrow> map (\<lambda>c. (c, the (map_of ps c))) (map fst ps) = ps"
proof (induction ps)
  case Nil
  then show ?case by simp
next
  case (Cons p ps)
  then have notin: "fst p \<notin> set (map fst ps)" and dist: "distinct (map fst ps)"
    by simp_all
  have "map (\<lambda>c. (c, the (map_of (p # ps) c))) (map fst ps) =
      map (\<lambda>c. (c, the (map_of ps c))) (map fst ps)"
  proof (rule map_cong [OF refl])
    fix c assume "c \<in> set (map fst ps)"
    with notin have "c \<noteq> fst p" by blast
    then show "(c, the (map_of (p # ps) c)) = (c, the (map_of ps c))"
      by (cases p) simp
  qed
  also have "\<dots> = ps" using dist by (rule Cons.IH)
  finally show ?case by (cases p) simp
qed

lemma slice_take_drop:
  "slice 0 (Some n) xs = take n xs" "slice n None xs = drop n xs"
  by (simp_all add: slice_def)

lemma len_iloc:
  "len (iloc 0 (Some n) t) = min n (len t)" "len (iloc n None t) = len t - n"
  by (simp_all add: len_def iloc_facts(1) slice_take_drop min.commute)

lemma column_or_nan_iloc:
  assumes "map_of (columns t) c = Some xs"
  shows "column_or_nan (iloc i j t) c = slice i j xs"
  using assms by (simp add: column_or_nan_def iloc_facts(3))

lemma pd_concat_iloc:
  assumes "wf_table e"
  shows "pd_concat (iloc 0 (Some n) e) (iloc n None e) = e"
proof -
  let ?X = "iloc 0 (Some n) e" and ?T = "iloc n None e"
  have dist: "distinct (map fst (columns e))"
    using assms by (simp add: wf_table_def names_def)
  have idx: "index (pd_concat ?X ?T) = index e"
    by (simp add: pd_concat_facts(1) iloc_facts(1) slice_take_drop)
  have "column_or_nan ?X c @ column_or_nan ?T c = the (map_of (columns e) c)"
    if "c \<in> set (names e)" for c
  proof -
    from that obtain xs where xs: "map_of (columns e) c = Some xs"
      using map_of_names_iff [of e c] by auto
    then show ?thesis
      by (simp add: column_or_nan_iloc slice_take_drop)
  qed
  then have "map (\<lambda>c. (c, column_or_nan ?X c @ column_or_nan ?T c)) (names e) =
      map (\<lambda>c. (c, the (map_of (columns e) c))) (names e)"
    by simp
  also have "\<dots> = columns e"
    unfolding names_def using dist by (rule tabulate_the_map_of)
  finally have "columns (pd_concat ?X ?T) = columns e"
    by (simp add: pd_concat_def iloc_facts(2))
  with idx show ?thesis by simp
qed

subsection \<open>The cells of the script, taken apart\<close>

lemma load_data_Inr_iff:
  "load_data train0 test = Inr (train, train_label, df) \<longleftrightarrow>
     (\<exists>tr. compliance_filter train0 = Inr tr \<and> getitem tr ''compliance'' = Inr train_label \<and>
           drop_axis1 train_drop tr = Inr train \<and> df = pd_concat train test)"
  by (auto simp: load_data_def bindE_Inr_iff)

lemma prepare_Inr_iff:
  "prepare train0 test = Inr (X_train, y_train, X_test) \<longleftrightarrow>
     (\<exists>train df d s e.
        load_data train0 test = Inr (train, y_train, df) \<and>
        drop_axis1 common_drop df = Inr d \<and>
        set_index ''ticket_id'' d = Inr s \<and>
        to_codes cat_columns s = Inr e \<and>
        X_train = iloc 0 (Some (len train)) e \<and>
        X_test = iloc (len train) None e)"
  by (auto simp: prepare_def bindE_Inr_iff split_back_def)

lemma load_data_facts:
  assumes "wf_table train0" "load_data train0 test = Inr (train, train_label, df)"
  shows "wf_table train" and "df = pd_concat train test"
proof -
  from assms(2) obtain tr where tr: "compliance_filter train0 = Inr tr"
    and dr: "drop_axis1 train_drop tr = Inr train" and df: "df = pd_concat train test"
    by (auto simp: load_data_Inr_iff)
  from assms(1) tr have "wf_table tr" by (rule compliance_filter_facts)
  then show "wf_table train" using dr by (rule wf_drop_axis1)
  show "df = pd_concat train test" by (rule df)
qed

lemma column_or_nan_drop_axis1:
  assumes "drop_axis1 labels t = Inr t'" "c \<notin> set labels"
  shows "column_or_nan t' c = column_or_nan t c"
  using assms(2)
  by (simp add: column_or_nan_def drop_axis1_facts(2,4) [OF assms(1)] split: option.splits)

lemma Series_Inr_iff:
  "Series data labels = Inr ans \<longleftrightarrow> length data = length labels \<and> ans = zip labels data"
  by (auto simp: Series_def)

subsection \<open>From the concatenation to the split\<close>

text \<open>
  What the unified frame, the encoded frame and its two parts hold, column by column.
\<close>

lemma unified_facts:
  assumes wf: "wf_table train" "wf_table test"
    and d: "drop_axis1 labels (pd_concat train test) = Inr d"
    and s: "set_index k d = Inr s"
    and e: "to_codes cols s = Inr e"
  shows "wf_table e"
    and "len e = len train + len test"
    and "index s = column_or_nan train k @ column_or_nan test k"
    and "c \<in> set (names s) \<Longrightarrow>
           map_of (columns s) c = Some (column_or_nan train c @ column_or_nan test c)"
    and "c \<in> set (names s) \<Longrightarrow>
           map_of (columns e) c =
             Some (encoded cols c (column_or_nan train c @ column_or_nan test c)
                    (column_or_nan train c) @
                   encoded cols c (column_or_nan train c @ column_or_nan test c)
                    (column_or_nan test c))"
proof -
  let ?df = "pd_concat train test"
  have wfdf: "wf_table ?df" using wf by (rule wf_pd_concat)
  then have wfd: "wf_table d" using d by (rule wf_drop_axis1)
  then have wfs: "wf_table s" and lens: "len s = len d" using s by (rule wf_set_index)+
  from wfs e show "wf_table e" by (rule wf_to_codes)
  note df = drop_axis1_facts [OF d]
  note sf = set_index_facts [OF s]
  note ef = to_codes_facts [OF e]
  show "len e = len train + len test"
    by (simp add: ef(2) lens df(2) pd_concat_facts(2))
  have col_s: "map_of (columns s) c = Some (column_or_nan train c @ column_or_nan test c)"
    if "c \<in> set (names s)" for c
  proof -
    from that obtain xs where "map_of (columns s) c = Some xs"
      using map_of_names_iff [of s c] by auto
    then show ?thesis
      by (simp add: sf(3) df(4) map_of_pd_concat split: if_splits)
  qed
  then show "c \<in> set (names s) \<Longrightarrow>
      map_of (columns s) c = Some (column_or_nan train c @ column_or_nan test c)" .
  from s obtain xs where k: "map_of (columns d) k = Some xs"
    by (auto simp: set_index_Inr_iff)
  then have "map_of (columns ?df) k = Some xs"
    by (simp add: df(4) split: if_splits)
  then have "xs = column_or_nan train k @ column_or_nan test k"
    by (simp add: map_of_pd_concat split: if_splits)
  with k show "index s = column_or_nan train k @ column_or_nan test k"
    by (simp add: sf(1) column_or_nan_Some)
  show "map_of (columns e) c =
      Some (encoded cols c (column_or_nan train c @ column_or_nan test c)
             (column_or_nan train c) @
            encoded cols c (column_or_nan train c @ column_or_nan test c)
             (column_or_nan test c))"
    if "c \<in> set (names s)"
    using col_s [OF that]
    by (simp add: ef(5) encoded_def column_or_nan_Some apply_vocabulary_append)
qed

lemma split_facts:
  assumes wf: "wf_table train" "wf_table test"
    and d: "drop_axis1 labels (pd_concat train test) = Inr d"
    and s: "set_index k d = Inr s"
    and e: "to_codes cols s = Inr e"
    and X: "X = iloc 0 (Some (len train)) e"
    and T: "T = iloc (len train) None e"
  shows "len X = len train" and "len T = len test"
    and "index X = column_or_nan train k" and "index T = column_or_nan test k"
    and "names X = names e" and "names T = names e"
    and "c \<in> set (names e) \<Longrightarrow>
           getitem X c = Inr (encoded cols c (column_or_nan train c @ column_or_nan test c)
                               (column_or_nan train c))"
    and "c \<in> set (names e) \<Longrightarrow>
           getitem T c = Inr (encoded cols c (column_or_nan train c @ column_or_nan test c)
                               (column_or_nan test c))"
    and "pd_concat X T = e"
proof -
  note uf = unified_facts [OF wf d s e]
  note ef = to_codes_facts [OF e]
  show "len X = len train" "len T = len test"
    by (simp_all add: X T len_iloc uf(2))
  have lk: "length (column_or_nan train k) = len train"
    using wf(1) by (rule length_column_or_nan)
  show "index X = column_or_nan train k" "index T = column_or_nan test k"
    by (simp_all add: X T iloc_facts(1) slice_take_drop ef(1) uf(3) lk)
  show "names X = names e" "names T = names e"
    by (simp_all add: X T iloc_facts(2))
  show "pd_concat X T = e"
    unfolding X T using uf(1) by (rule pd_concat_iloc)
  let ?whole = "column_or_nan train c @ column_or_nan test c"
  assume "c \<in> set (names e)"
  then have "c \<in> set (names s)" by (simp add: ef(3))
  note col = uf(5) [OF this]
  have lc: "length (encoded cols c ?whole (column_or_nan train c)) = len train"
    using wf(1) by (simp add: length_encoded length_column_or_nan)
  show "getitem X c = Inr (encoded cols c ?whole (column_or_nan train c))"
    by (simp add: X getitem_Inr_iff iloc_facts(3) col slice_take_drop lc)
  show "getitem T c = Inr (encoded cols c ?whole (column_or_nan test c))"
    by (simp add: T getitem_Inr_iff iloc_facts(3) col slice_take_drop lc)
qed

subsection \<open>The example frames, evaluated\<close>

lemma wf_demo_train: "wf_table demo_train"
  by code_simp

lemma wf_demo_test: "wf_table demo_test"
  by code_simp

lemma exact_demo_train: "exact_numbers demo_train"
  by code_simp

lemma exact_demo_test: "exact_numbers demo_test"
  by code_simp

lemma prepare_demo:
  "prepare demo_train demo_test = Inr (demo_X_train, demo_y_train, demo_X_test)"
  by code_simp

lemma load_data_demo:
  "load_data demo_train demo_test =
     Inr (demo_kept, demo_y_train, pd_concat demo_kept demo_test)"
  by code_simp

section \<open>The claims\<close>

text \<open>
  Claim C1. Whenever the preparation succeeds on two frames whose numbers lie within
  \<open>\<plusminus>2\<^sup>5\<^sup>3\<close>, where joining an int64 column to a float64 column changes no
  number: the unified frame holds the
  training rows and then the evaluation rows, in its index and in every column; the
  encoding keeps the index, the column names and the number of rows, and rewrites each
  column value by value; cutting the encoded frame at the number of training rows
  gives training features that are the encoded training rows and evaluation features
  that are the encoded evaluation rows, column by column; and joining the two parts
  gives the encoded frame again, which cut once more at the same row gives the same two
  frames.
\<close>

theorem row_order_and_split:
  assumes "wf_table train0" and "wf_table test"
    and "prepare train0 test = Inr (X_train, y_train, X_test)"
    and "exact_numbers train0" and "exact_numbers test"
  shows "\<exists>train df d s e.
      load_data train0 test = Inr (train, y_train, df) \<and>
      drop_axis1 common_drop df = Inr d \<and>
      set_index ''ticket_id'' d = Inr s \<and>
      to_codes cat_columns s = Inr e \<and>
      df = pd_concat train test \<and>
      index df = index train @ index test \<and>
      (\<forall>c \<in> set (names df).
         getitem df c = Inr (column_or_nan train c @ column_or_nan test c)) \<and>
      index e = index s \<and> names e = names s \<and> len e = len s \<and>
      len e = len train + len test \<and>
      (\<forall>c \<in> set (names s). \<exists>xs.
         getitem s c = Inr xs \<and> getitem e c = Inr (encoded cat_columns c xs xs)) \<and>
      X_train = iloc 0 (Some (len train)) e \<and> X_test = iloc (len train) None e \<and>
      len X_train = len train \<and> len X_test = len test \<and>
      index X_train = column_or_nan train ''ticket_id'' \<and>
      index X_test = column_or_nan test ''ticket_id'' \<and>
      names X_train = names e \<and> names X_test = names e \<and>
      (\<forall>c \<in> set (names e).
         getitem X_train c =
           Inr (encoded cat_columns c (column_or_nan train c @ column_or_nan test c)
                 (column_or_nan train c)) \<and>
         getitem X_test c =
           Inr (encoded cat_columns c (column_or_nan train c @ column_or_nan test c)
                 (column_or_nan test c))) \<and>
      pd_concat X_train X_test = e \<and>
      iloc 0 (Some (len X_train)) (pd_concat X_train X_test) = X_train \<and>
      iloc (len X_train) None (pd_concat X_train X_test) = X_test"
proof -
  from assms(3) obtain train df d s e where
    ld: "load_data train0 test = Inr (train, y_train, df)"
    and d: "drop_axis1 common_drop df = Inr d"
    and s: "set_index ''ticket_id'' d = Inr s"
    and e: "to_codes cat_columns s = Inr e"
    and X: "X_train = iloc 0 (Some (len train)) e"
    and T: "X_test = iloc (len train) None e"
    unfolding prepare_Inr_iff by blast
  note lf = load_data_facts [OF assms(1) ld]
  note d' = d [unfolded lf(2)]
  note sf = split_facts [OF lf(1) assms(2) d' s e X T]
  note uf = unified_facts [OF lf(1) assms(2) d' s e]
  note ef = to_codes_facts [OF e]
  have unified: "\<forall>c \<in> set (names df).
      getitem df c = Inr (column_or_nan train c @ column_or_nan test c)"
    unfolding lf(2) by (auto simp: getitem_Inr_iff map_of_pd_concat pd_concat_facts(3))
  have enc: "\<forall>c \<in> set (names s). \<exists>xs.
      getitem s c = Inr xs \<and> getitem e c = Inr (encoded cat_columns c xs xs)"
  proof
    fix c assume "c \<in> set (names s)"
    then obtain xs where xs: "map_of (columns s) c = Some xs"
      using map_of_names_iff [of s c] by auto
    then have "getitem e c = Inr (encoded cat_columns c xs xs)"
      by (simp add: getitem_Inr_iff ef(5) encoded_def column_or_nan_Some)
    with xs show "\<exists>xs. getitem s c = Inr xs \<and> getitem e c = Inr (encoded cat_columns c xs xs)"
      by (simp add: getitem_Inr_iff)
  qed
  have parts: "\<forall>c \<in> set (names e).
      getitem X_train c =
        Inr (encoded cat_columns c (column_or_nan train c @ column_or_nan test c)
              (column_or_nan train c)) \<and>
      getitem X_test c =
        Inr (encoded cat_columns c (column_or_nan train c @ column_or_nan test c)
              (column_or_nan test c))"
    using sf(7,8) by blast
  have again: "iloc 0 (Some (len X_train)) (pd_concat X_train X_test) = X_train"
    "iloc (len X_train) None (pd_concat X_train X_test) = X_test"
    unfolding sf(9) sf(1) by (simp_all add: X T)
  have idx: "index df = index train @ index test"
    unfolding lf(2) by (rule pd_concat_facts(1))
  show ?thesis
    using ld d s e lf(2) idx unified ef(1,3,2) uf(2) enc X T sf(1-6) parts sf(9) again
    by blast
qed

theorem row_order_and_split_witness:
  "wf_table demo_train \<and> wf_table demo_test \<and>
   exact_numbers demo_train \<and> exact_numbers demo_test \<and>
   prepare demo_train demo_test = Inr (demo_X_train, demo_y_train, demo_X_test) \<and>
   len demo_X_test = len demo_test \<and>
   index demo_X_test = column_or_nan demo_test ''ticket_id'' \<and>
   names demo_X_train = names demo_X_test \<and>
   iloc 0 (Some (len demo_X_train)) (pd_concat demo_X_train demo_X_test) = demo_X_train \<and>
   iloc (len demo_X_train) None (pd_concat demo_X_train demo_X_test) = demo_X_test"
  using row_order_and_split [OF wf_demo_train wf_demo_test prepare_demo
      exact_demo_train exact_demo_test]
    wf_demo_train wf_demo_test prepare_demo exact_demo_train exact_demo_test
  by metis

text \<open>
  Claim C2. On two frames whose numbers lie within \<open>\<plusminus>2\<^sup>5\<^sup>3\<close>: for each
  column named for encoding the vocabulary is built once, over the
  values of the training rows followed by those of the evaluation rows, and both
  partitions are encoded with it. Two rows, wherever they stand, get the same code in
  that column exactly when they hold the same value. The codes of a column depend on
  the values of that column only.
\<close>

theorem shared_vocabulary:
  assumes "wf_table train0" and "wf_table test"
    and "load_data train0 test = Inr (train, train_label, df)"
    and "prepare train0 test = Inr (X_train, y_train, X_test)"
    and "c \<in> set cat_columns"
    and "exact_numbers train0" and "exact_numbers test"
  shows "getitem df c = Inr (column_or_nan train c @ column_or_nan test c) \<and>
         getitem X_train c =
           Inr (apply_vocabulary (unique_sorted (column_or_nan train c @ column_or_nan test c))
                 (column_or_nan train c)) \<and>
         getitem X_test c =
           Inr (apply_vocabulary (unique_sorted (column_or_nan train c @ column_or_nan test c))
                 (column_or_nan test c)) \<and>
         length (column_or_nan train c @ column_or_nan test c) = len train + len test \<and>
         (\<forall>i < len train + len test. \<forall>j < len train + len test.
            (column_or_nan X_train c @ column_or_nan X_test c) ! i =
            (column_or_nan X_train c @ column_or_nan X_test c) ! j
            \<longleftrightarrow> (column_or_nan train c @ column_or_nan test c) ! i =
                (column_or_nan train c @ column_or_nan test c) ! j)"
proof -
  let ?whole = "column_or_nan train c @ column_or_nan test c"
  from assms(4) obtain train' df' d s e where
    ld: "load_data train0 test = Inr (train', y_train, df')"
    and d: "drop_axis1 common_drop df' = Inr d"
    and s: "set_index ''ticket_id'' d = Inr s"
    and e: "to_codes cat_columns s = Inr e"
    and X: "X_train = iloc 0 (Some (len train')) e"
    and T: "X_test = iloc (len train') None e"
    unfolding prepare_Inr_iff by blast
  from ld assms(3) have same: "train' = train" "df' = df" by simp_all
  note lf = load_data_facts [OF assms(1) assms(3)]
  note d' = d [unfolded same lf(2)]
  note sf = split_facts [OF lf(1) assms(2) d' s e X [unfolded same] T [unfolded same]]
  note ef = to_codes_facts [OF e]
  from assms(5) ef(4) have c: "c \<in> set (names e)" by (auto simp: ef(3))
  then have "c \<in> set (names s)" by (simp add: ef(3))
  then obtain xs where "map_of (columns s) c = Some xs"
    using map_of_names_iff [of s c] by auto
  then have "map_of (columns (pd_concat train test)) c = Some xs"
    by (simp add: set_index_facts(3) [OF s] drop_axis1_facts(4) [OF d'] split: if_splits)
  then have unified: "getitem df c = Inr ?whole"
    unfolding lf(2) by (simp add: getitem_Inr_iff map_of_pd_concat split: if_splits)
  have Xc: "getitem X_train c = Inr (apply_vocabulary (unique_sorted ?whole) (column_or_nan train c))"
    and Tc: "getitem X_test c = Inr (apply_vocabulary (unique_sorted ?whole) (column_or_nan test c))"
    using sf(7,8) [OF c] assms(5) by (simp_all add: encoded_def)
  have n: "length ?whole = len train + len test"
    using lf(1) assms(2) by (simp add: length_column_or_nan)
  have out: "column_or_nan X_train c @ column_or_nan X_test c =
      apply_vocabulary (unique_sorted ?whole) ?whole"
    using Xc Tc by (simp add: getitem_Inr_iff column_or_nan_Some apply_vocabulary_append)
  have "\<forall>i < len train + len test. \<forall>j < len train + len test.
      (column_or_nan X_train c @ column_or_nan X_test c) ! i =
      (column_or_nan X_train c @ column_or_nan X_test c) ! j
      \<longleftrightarrow> ?whole ! i = ?whole ! j"
    unfolding out n [symmetric] using apply_vocabulary_nth_eq_iff by blast
  with unified Xc Tc n show ?thesis by blast
qed

theorem shared_vocabulary_witness:
  "wf_table demo_train \<and> wf_table demo_test \<and>
   exact_numbers demo_train \<and> exact_numbers demo_test \<and>
   load_data demo_train demo_test = Inr (demo_kept, demo_y_train, pd_concat demo_kept demo_test) \<and>
   prepare demo_train demo_test = Inr (demo_X_train, demo_y_train, demo_X_test) \<and>
   ''agency_name'' \<in> set cat_columns \<and>
   column_or_nan demo_kept ''agency_name'' @ column_or_nan demo_test ''agency_name'' =
     [Str ''B'', Str ''A'', Str ''A'', Str ''A'', Str ''A'', Str ''C'', Str ''B''] \<and>
   unique_sorted [Str ''B'', Str ''A'', Str ''A'', Str ''A'', Str ''A'', Str ''C'', Str ''B''] =
     [Str ''A'', Str ''B'', Str ''C''] \<and>
   getitem demo_X_train ''agency_name'' = Inr [Num 1, Num 0, Num 0, Num 0] \<and>
   getitem demo_X_test ''agency_name'' = Inr [Num 0, Num 2, Num 1]"
proof -
  let ?whole = "[Str ''B'', Str ''A'', Str ''A'', Str ''A'', Str ''A'', Str ''C'', Str ''B'']"
  have mem: "''agency_name'' \<in> set cat_columns" by code_simp
  have tr: "column_or_nan demo_kept ''agency_name'' = [Str ''B'', Str ''A'', Str ''A'', Str ''A'']"
    by code_simp
  have te: "column_or_nan demo_test ''agency_name'' = [Str ''A'', Str ''C'', Str ''B'']"
    by code_simp
  have whole: "column_or_nan demo_kept ''agency_name'' @ column_or_nan demo_test ''agency_name''
      = ?whole"
    unfolding tr te by simp
  have us: "unique_sorted ?whole = [Str ''A'', Str ''B'', Str ''C'']"
    by code_simp
  have a: "apply_vocabulary [Str ''A'', Str ''B'', Str ''C''] [Str ''B'', Str ''A'', Str ''A'', Str ''A'']
      = [Num 1, Num 0, Num 0, Num 0]"
    by code_simp
  have b: "apply_vocabulary [Str ''A'', Str ''B'', Str ''C''] [Str ''A'', Str ''C'', Str ''B'']
      = [Num 0, Num 2, Num 1]"
    by code_simp
  note sv = shared_vocabulary [OF wf_demo_train wf_demo_test load_data_demo prepare_demo mem
      exact_demo_train exact_demo_test, unfolded whole us, unfolded tr te a b]
  from sv have "getitem demo_X_train ''agency_name'' = Inr [Num 1, Num 0, Num 0, Num 0]"
    and "getitem demo_X_test ''agency_name'' = Inr [Num 0, Num 2, Num 1]"
    by blast+
  with wf_demo_train wf_demo_test exact_demo_train exact_demo_test load_data_demo
    prepare_demo mem whole us
  show ?thesis by blast
qed

text \<open>
  Claim C3. On a training frame that has the outcome column the filter raises no error
  and keeps, in their order, exactly the rows whose outcome is 1 or 0; a row whose
  outcome is missing or anything else is removed. The number of rows left is the
  number of rows with a defined outcome.
\<close>

theorem filter_keeps_defined_outcomes:
  assumes "wf_table train" and "getitem train ''compliance'' = Inr cs"
  shows "\<exists>t'. compliance_filter train = Inr t' \<and> wf_table t' \<and>
           names t' = names train \<and>
           index t' = map snd (filter (\<lambda>(y, x). y = Num 1 \<or> y = Num 0) (zip cs (index train))) \<and>
           (\<forall>c xs. getitem train c = Inr xs \<longrightarrow>
              getitem t' c =
                Inr (map snd (filter (\<lambda>(y, x). y = Num 1 \<or> y = Num 0) (zip cs xs)))) \<and>
           getitem t' ''compliance'' = Inr (filter (\<lambda>y. y = Num 1 \<or> y = Num 0) cs) \<and>
           len t' = length (filter (\<lambda>y. y = Num 1 \<or> y = Num 0) cs)"
proof -
  let ?P = "\<lambda>y. y = Num 1 \<or> y = Num 0"
  let ?t = "getitem_mask train (map ?P cs)"
  from assms(2) have cs: "map_of (columns train) ''compliance'' = Some cs"
    by (simp add: getitem_Inr_iff)
  with assms(1) have lcs: "length cs = len train" by (rule wf_table_length)
  have run: "compliance_filter train = Inr ?t"
    using cs by (simp add: compliance_filter_Inr_iff)
  have wf: "wf_table ?t"
    using assms(1) lcs by (simp add: wf_getitem_mask)
  have idx: "index ?t = map snd (filter (\<lambda>(y, x). ?P y) (zip cs (index train)))"
    by (simp add: getitem_mask_def select_map_zip)
  have col: "getitem ?t c = Inr (map snd (filter (\<lambda>(y, x). ?P y) (zip cs xs)))"
    if "getitem train c = Inr xs" for c xs
    using that by (simp add: getitem_Inr_iff map_of_getitem_mask select_map_zip)
  have lab: "getitem ?t ''compliance'' = Inr (filter ?P cs)"
    using cs by (simp add: getitem_Inr_iff map_of_getitem_mask select_map_self)
  then have "map_of (columns ?t) ''compliance'' = Some (filter ?P cs)"
    by (simp add: getitem_Inr_iff)
  with wf have "length (filter ?P cs) = len ?t" by (rule wf_table_length)
  with run wf idx col lab show ?thesis
    by (simp add: names_getitem_mask)
qed

theorem filter_keeps_defined_outcomes_witness:
  "wf_table demo_train \<and>
   getitem demo_train ''compliance'' = Inr [Num 0, Num 1, NaN, Num 0, Num 2, Num 1] \<and>
   (\<exists>t'. compliance_filter demo_train = Inr t' \<and> len t' = 4 \<and>
      index t' = [Num 0, Num 1, Num 3, Num 5] \<and>
      getitem t' ''ticket_id'' = Inr [Num 22056, Num 27586, Num 22084, Num 22046] \<and>
      getitem t' ''compliance'' = Inr [Num 0, Num 1, Num 0, Num 1])"
proof -
  let ?cs = "[Num 0, Num 1, NaN, Num 0, Num 2, Num 1]"
  let ?ids = "[Num 22056, Num 27586, Num 22062, Num 22084, Num 22093, Num 22046]"
  have lab: "getitem demo_train ''compliance'' = Inr ?cs"
    by code_simp
  have ids: "getitem demo_train ''ticket_id'' = Inr ?ids"
    by code_simp
  have e1: "map snd (filter (\<lambda>(y, x). y = Num 1 \<or> y = Num 0) (zip ?cs (index demo_train)))
      = [Num 0, Num 1, Num 3, Num 5]"
    by code_simp
  have e2: "map snd (filter (\<lambda>(y, x). y = Num 1 \<or> y = Num 0) (zip ?cs ?ids))
      = [Num 22056, Num 27586, Num 22084, Num 22046]"
    by code_simp
  have e3: "filter (\<lambda>y. y = Num 1 \<or> y = Num 0) ?cs = [Num 0, Num 1, Num 0, Num 1]"
    by code_simp
  from filter_keeps_defined_outcomes [OF wf_demo_train lab] obtain t' where
    run: "compliance_filter demo_train = Inr t'"
    and idx: "index t' =
      map snd (filter (\<lambda>(y, x). y = Num 1 \<or> y = Num 0) (zip ?cs (index demo_train)))"
    and col: "\<forall>c xs. getitem demo_train c = Inr xs \<longrightarrow>
      getitem t' c = Inr (map snd (filter (\<lambda>(y, x). y = Num 1 \<or> y = Num 0) (zip ?cs xs)))"
    and out: "getitem t' ''compliance'' = Inr (filter (\<lambda>y. y = Num 1 \<or> y = Num 0) ?cs)"
    and n: "len t' = length (filter (\<lambda>y. y = Num 1 \<or> y = Num 0) ?cs)"
    by blast
  from col ids have "getitem t' ''ticket_id'' =
      Inr (map snd (filter (\<lambda>(y, x). y = Num 1 \<or> y = Num 0) (zip ?cs ?ids)))"
    by blast
  then have "getitem t' ''ticket_id'' = Inr [Num 22056, Num 27586, Num 22084, Num 22046]"
    unfolding e2 .
  moreover from n have "len t' = 4" unfolding e3 by simp
  moreover from idx have "index t' = [Num 0, Num 1, Num 3, Num 5]" unfolding e1 .
  moreover from out have "getitem t' ''compliance'' = Inr [Num 0, Num 1, Num 0, Num 1]"
    unfolding e3 .
  ultimately show ?thesis
    using wf_demo_train lab run by blast
qed

text \<open>
  Claim C4. For every column named for encoding, the encoder lists the distinct values
  of the column that are present in one fixed (sorted) order without repetition, gives
  the value at position \<open>k\<close> of that list the code \<open>k\<close>, counting from 0, and puts
  in place of every occurrence of a value its code. A column holding \<open>A, B, A\<close> becomes
  \<open>0, 1, 0\<close>.
\<close>

theorem encoder_enumerates:
  assumes "to_codes cols t = Inr t'" and "c \<in> set cols"
  shows "\<exists>xs. getitem t c = Inr xs \<and>
           getitem t' c = Inr (map (\<lambda>v. Num (of_int (code_of (unique_sorted xs) v))) xs) \<and>
           distinct (unique_sorted xs) \<and>
           set (unique_sorted xs) = set xs - {NaN} \<and>
           sorted (map cell_key (unique_sorted xs)) \<and>
           (\<forall>k < length (unique_sorted xs).
              code_of (unique_sorted xs) (unique_sorted xs ! k) = int k)"
proof -
  note tc = to_codes_facts [OF assms(1)]
  from tc(4) assms(2) have "c \<in> set (names t)" by auto
  then obtain xs where xs: "map_of (columns t) c = Some xs"
    using map_of_names_iff [of t c] by auto
  then have con: "column_or_nan t c = xs" by (rule column_or_nan_Some)
  have "getitem t c = Inr xs" using xs by (simp add: getitem_Inr_iff)
  moreover have "getitem t' c = Inr (map (\<lambda>v. Num (of_int (code_of (unique_sorted xs) v))) xs)"
    using assms(2) by (simp add: getitem_Inr_iff tc(5) con apply_vocabulary_def)
  ultimately show ?thesis
    using distinct_unique_sorted [of xs] set_unique_sorted [of xs] sorted_unique_sorted [of xs]
      code_of_category [of _ xs]
    by blast
qed

theorem encoder_enumerates_witness:
  "to_codes [''letter''] letters_frame = Inr letters_codes \<and>
   getitem letters_frame ''letter'' = Inr [Str ''A'', Str ''B'', Str ''A''] \<and>
   getitem letters_codes ''letter'' = Inr [Num 0, Num 1, Num 0] \<and>
   unique_sorted [Str ''A'', Str ''B'', Str ''A''] = [Str ''A'', Str ''B''] \<and>
   code_of [Str ''A'', Str ''B''] (Str ''B'') = 1"
proof -
  have run: "to_codes [''letter''] letters_frame = Inr letters_codes"
    by code_simp
  have mem: "''letter'' \<in> set [''letter'']" by simp
  have col: "getitem letters_frame ''letter'' = Inr [Str ''A'', Str ''B'', Str ''A'']"
    by code_simp
  have us: "unique_sorted [Str ''A'', Str ''B'', Str ''A''] = [Str ''A'', Str ''B'']"
    by code_simp
  have enc: "map (\<lambda>v. Num (of_int (code_of [Str ''A'', Str ''B''] v)))
      [Str ''A'', Str ''B'', Str ''A''] = [Num 0, Num 1, Num 0]"
    by code_simp
  from encoder_enumerates [OF run mem] obtain xs where
    xs: "getitem letters_frame ''letter'' = Inr xs"
    and out: "getitem letters_codes ''letter'' =
      Inr (map (\<lambda>v. Num (of_int (code_of (unique_sorted xs) v))) xs)"
    and enum: "\<forall>k < length (unique_sorted xs).
      code_of (unique_sorted xs) (unique_sorted xs ! k) = int k"
    by blast
  from xs col have eq: "xs = [Str ''A'', Str ''B'', Str ''A'']" by simp
  from out have "getitem letters_codes ''letter'' = Inr [Num 0, Num 1, Num 0]"
    unfolding eq us enc .
  moreover have "code_of [Str ''A'', Str ''B''] ([Str ''A'', Str ''B''] ! 1) = int 1"
    using enum [unfolded eq us, rule_format, of 1] by simp
  then have "code_of [Str ''A'', Str ''B''] (Str ''B'') = 1" by simp
  ultimately show ?thesis using run col us by simp
qed

text \<open>
  Claim C5. For a categorical column the map from value to code is a bijection between
  the distinct present values of the column and the codes \<open>0, \<dots>, n - 1\<close>; reading
  the category at an assigned code gives back the value it was assigned to.
\<close>

theorem encoding_round_trip:
  "bij_betw (code_of (categories (astype_category xs))) (set xs - {NaN})
     {0 ..< int (length (categories (astype_category xs)))} \<and>
   (\<forall>k < length (categories (astype_category xs)).
      code_of (categories (astype_category xs)) (categories (astype_category xs) ! k) = int k) \<and>
   length (codes (astype_category xs)) = length xs \<and>
   (\<forall>i < length xs. xs ! i \<noteq> NaN \<longrightarrow>
      categories (astype_category xs) ! nat (codes (astype_category xs) ! i) = xs ! i)"
proof -
  let ?cats = "unique_sorted xs"
  have cats: "categories (astype_category xs) = ?cats"
    and cds: "codes (astype_category xs) = map (code_of ?cats) xs"
    by (simp_all add: astype_category_def)
  have "bij_betw (code_of ?cats) (set xs - {NaN}) {0 ..< int (length ?cats)}"
  proof (rule bij_betw_byWitness [where f' = "\<lambda>k. ?cats ! nat k"])
    show "\<forall>v \<in> set xs - {NaN}. ?cats ! nat (code_of ?cats v) = v"
      by (simp add: code_of_present(3))
    show "\<forall>k \<in> {0 ..< int (length ?cats)}. code_of ?cats (?cats ! nat k) = k"
    proof
      fix k assume "k \<in> {0 ..< int (length ?cats)}"
      then have "nat k < length ?cats" "int (nat k) = k" by auto
      with code_of_category [of "nat k" xs] show "code_of ?cats (?cats ! nat k) = k" by simp
    qed
    show "code_of ?cats ` (set xs - {NaN}) \<subseteq> {0 ..< int (length ?cats)}"
    proof
      fix k assume "k \<in> code_of ?cats ` (set xs - {NaN})"
      then obtain v where "k = code_of ?cats v" "v \<in> set xs" "v \<noteq> NaN" by auto
      then show "k \<in> {0 ..< int (length ?cats)}"
        using code_of_present(1,2) [of v xs] by simp
    qed
    show "(\<lambda>k. ?cats ! nat k) ` {0 ..< int (length ?cats)} \<subseteq> set xs - {NaN}"
    proof
      fix v assume "v \<in> (\<lambda>k. ?cats ! nat k) ` {0 ..< int (length ?cats)}"
      then obtain k where "v = ?cats ! nat k" "nat k < length ?cats" by auto
      then have "v \<in> set ?cats" by simp
      then show "v \<in> set xs - {NaN}" by (simp add: set_unique_sorted)
    qed
  qed
  moreover have "\<forall>k < length ?cats. code_of ?cats (?cats ! k) = int k"
    by (simp add: code_of_category)
  moreover have "\<forall>i < length xs. xs ! i \<noteq> NaN \<longrightarrow>
      ?cats ! nat (map (code_of ?cats) xs ! i) = xs ! i"
    by (simp add: code_of_present(3))
  ultimately show ?thesis
    unfolding cats cds by simp
qed

theorem encoding_round_trip_witness:
  "categories (astype_category [Str ''B'', NaN, Str ''A'', Str ''B'']) = [Str ''A'', Str ''B''] \<and>
   codes (astype_category [Str ''B'', NaN, Str ''A'', Str ''B'']) = [1, - 1, 0, 1] \<and>
   [Str ''A'', Str ''B''] ! nat ([1, - 1, 0, 1] ! 3) = [Str ''B'', NaN, Str ''A'', Str ''B''] ! 3 \<and>
   code_of [Str ''A'', Str ''B''] ([Str ''A'', Str ''B''] ! 1) = int 1"
proof -
  let ?xs = "[Str ''B'', NaN, Str ''A'', Str ''B'']"
  have cats: "categories (astype_category ?xs) = [Str ''A'', Str ''B'']"
    by code_simp
  have cds: "codes (astype_category ?xs) = [1, - 1, 0, 1]"
    by code_simp
  note rt = encoding_round_trip [of ?xs, unfolded cats cds]
  have "[Str ''A'', Str ''B''] ! nat ([1, - 1, 0, 1] ! 3) = ?xs ! 3"
    using rt [THEN conjunct2, THEN conjunct2, THEN conjunct2, rule_format, of 3] by simp
  moreover have "code_of [Str ''A'', Str ''B''] ([Str ''A'', Str ''B''] ! 1) = int 1"
    using rt [THEN conjunct2, THEN conjunct1, rule_format, of 1] by simp
  ultimately show ?thesis using cats cds by simp
qed

text \<open>
  Claim C6. On two frames whose numbers lie within \<open>\<plusminus>2\<^sup>5\<^sup>3\<close>, so that no
  ticket number is rounded on the way: when the model returns one row of probabilities
  per evaluation row, the
  output is a sequence of pairs, one per evaluation row, whose identifiers are the
  ticket numbers of the evaluation frame in its row order and whose values are the
  class 1 probabilities in the order the model returned them. When the model returns
  any other number of rows, building the output fails. For the ticket numbers 285362,
  285361, 285338 the output keeps that order.
\<close>

theorem predictor_output_order:
  assumes "wf_table train0" and "wf_table test"
    and "prepare train0 test = Inr (X_train, y_train, X_test)"
    and "fit_predict X_train y_train X_test = Inr result"
    and "exact_numbers train0" and "exact_numbers test"
  shows "(length result \<noteq> len X_test \<longrightarrow> pipeline fit_predict train0 test = Inl ValueError) \<and>
         (length result = len X_test \<longrightarrow>
            (\<exists>ans. pipeline fit_predict train0 test = Inr ans \<and>
               length ans = len X_test \<and> len X_test = len test \<and>
               map fst ans = index X_test \<and>
               index X_test = column_or_nan test ''ticket_id'' \<and>
               map snd ans = map snd result \<and>
               (\<forall>i < len test.
                  ans ! i = (column_or_nan test ''ticket_id'' ! i, snd (result ! i)))))"
proof -
  have run: "pipeline fit_predict train0 test = Series (map snd result) (index X_test)"
    using assms(3,4) by (simp add: pipeline_def bindE_def)
  from assms(3) obtain train df d s e where
    ld: "load_data train0 test = Inr (train, y_train, df)"
    and d: "drop_axis1 common_drop df = Inr d"
    and s: "set_index ''ticket_id'' d = Inr s"
    and e: "to_codes cat_columns s = Inr e"
    and X: "X_train = iloc 0 (Some (len train)) e"
    and T: "X_test = iloc (len train) None e"
    unfolding prepare_Inr_iff by blast
  note lf = load_data_facts [OF assms(1) ld]
  note sf = split_facts [OF lf(1) assms(2) d [unfolded lf(2)] s e X T]
  have bad: "pipeline fit_predict train0 test = Inl ValueError"
    if "length result \<noteq> len X_test"
    using that by (simp add: run Series_def len_def)
  have good: "\<exists>ans. pipeline fit_predict train0 test = Inr ans \<and>
      length ans = len X_test \<and> len X_test = len test \<and>
      map fst ans = index X_test \<and>
      index X_test = column_or_nan test ''ticket_id'' \<and>
      map snd ans = map snd result \<and>
      (\<forall>i < len test. ans ! i = (column_or_nan test ''ticket_id'' ! i, snd (result ! i)))"
    if n: "length result = len X_test"
  proof -
    let ?ans = "zip (index X_test) (map snd result)"
    from n have eq: "length (map snd result) = length (index X_test)"
      by (simp add: len_def)
    then have "pipeline fit_predict train0 test = Inr ?ans"
      by (simp add: run Series_def)
    moreover have "length ?ans = len X_test" using eq by (simp add: len_def)
    moreover have "map fst ?ans = index X_test" using eq by (simp add: map_fst_zip)
    moreover have "map snd ?ans = map snd result" using eq by (simp add: map_snd_zip)
    moreover have "\<forall>i < len test.
        ?ans ! i = (column_or_nan test ''ticket_id'' ! i, snd (result ! i))"
    proof (intro allI impI)
      fix i assume "i < len test"
      with sf(2) have "i < len X_test" by simp
      with n have "i < length (index X_test)" "i < length result"
        by (simp_all add: len_def)
      then show "?ans ! i = (column_or_nan test ''ticket_id'' ! i, snd (result ! i))"
        by (simp add: sf(4))
    qed
    ultimately show ?thesis using sf(2,4) by blast
  qed
  from bad good show ?thesis by blast
qed

theorem predictor_output_order_witness:
  "wf_table demo_train \<and> wf_table demo_test \<and>
   exact_numbers demo_train \<and> exact_numbers demo_test \<and>
   prepare demo_train demo_test = Inr (demo_X_train, demo_y_train, demo_X_test) \<and>
   column_or_nan demo_test ''ticket_id'' = [Num 285362, Num 285361, Num 285338] \<and>
   (\<exists>ans. pipeline demo_fit_predict demo_train demo_test = Inr ans \<and>
      map fst ans = [Num 285362, Num 285361, Num 285338] \<and>
      map snd ans = [18437 / 1000000, 54479 / 1000000, 48851 / 1000000]) \<and>
   pipeline (\<lambda>X y T. Inr [(1 / 2, 1 / 2 :: rat)]) demo_train demo_test = Inl ValueError"
proof -
  let ?result = "[(981563 / 1000000, 18437 / 1000000), (945521 / 1000000, 54479 / 1000000),
    (951149 / 1000000, 48851 / 1000000)] :: (rat \<times> rat) list"
  have fp: "demo_fit_predict demo_X_train demo_y_train demo_X_test = Inr ?result"
    by (simp add: demo_fit_predict_def)
  have n: "length ?result = len demo_X_test" by code_simp
  have ids: "column_or_nan demo_test ''ticket_id'' = [Num 285362, Num 285361, Num 285338]"
    by code_simp
  have snds: "map snd ?result = [18437 / 1000000, 54479 / 1000000, 48851 / 1000000]"
    by simp
  from predictor_output_order [where fit_predict = demo_fit_predict,
      OF wf_demo_train wf_demo_test prepare_demo fp exact_demo_train exact_demo_test] n
  obtain ans where "pipeline demo_fit_predict demo_train demo_test = Inr ans"
    and "map fst ans = index demo_X_test"
    and "index demo_X_test = column_or_nan demo_test ''ticket_id''"
    and "map snd ans = map snd ?result"
    by blast
  then have ok: "\<exists>ans. pipeline demo_fit_predict demo_train demo_test = Inr ans \<and>
      map fst ans = [Num 285362, Num 285361, Num 285338] \<and>
      map snd ans = [18437 / 1000000, 54479 / 1000000, 48851 / 1000000]"
    unfolding ids snds by simp
  have fp1: "(\<lambda>X y T. Inr [(1 / 2, 1 / 2 :: rat)]) demo_X_train demo_y_train demo_X_test
      = Inr [(1 / 2, 1 / 2)]"
    by simp
  have n1: "length [(1 / 2, 1 / 2 :: rat)] \<noteq> len demo_X_test" by code_simp
  from predictor_output_order [where fit_predict = "\<lambda>X y T. Inr [(1 / 2, 1 / 2 :: rat)]",
      OF wf_demo_train wf_demo_test prepare_demo fp1 exact_demo_train exact_demo_test] n1
  have "pipeline (\<lambda>X y T. Inr [(1 / 2, 1 / 2 :: rat)]) demo_train demo_test = Inl ValueError"
    by blast
  with ok ids wf_demo_train wf_demo_test exact_demo_train exact_demo_test prepare_demo
  show ?thesis by blast
qed

text \<open>
  Claim C7. In a column named for encoding a row whose value is missing gets the code
  \<open>-1\<close>; a row whose value is present gets the position of its value in the
  vocabulary, which is not negative.
\<close>

theorem missing_value_code:
  assumes "to_codes cols t = Inr t'" and "c \<in> set cols"
    and "getitem t c = Inr xs" and "i < length xs"
  shows "\<exists>ys. getitem t' c = Inr ys \<and> length ys = length xs \<and>
           (xs ! i = NaN \<longrightarrow> ys ! i = Num (- 1)) \<and>
           (xs ! i \<noteq> NaN \<longrightarrow>
              (\<exists>k < length (unique_sorted xs). ys ! i = Num (of_nat k) \<and>
                 unique_sorted xs ! k = xs ! i))"
proof -
  note tc = to_codes_facts [OF assms(1)]
  from assms(3) have con: "column_or_nan t c = xs"
    by (simp add: getitem_Inr_iff column_or_nan_Some)
  let ?ys = "apply_vocabulary (unique_sorted xs) xs"
  have out: "getitem t' c = Inr ?ys"
    using assms(2) by (simp add: getitem_Inr_iff tc(5) con)
  have nth: "?ys ! i = Num (of_int (code_of (unique_sorted xs) (xs ! i)))"
    using assms(4) by (simp add: apply_vocabulary_def)
  have "?ys ! i = Num (- 1)" if "xs ! i = NaN"
    using that by (simp add: nth code_of_NaN)
  moreover have "\<exists>k < length (unique_sorted xs). ?ys ! i = Num (of_nat k) \<and>
      unique_sorted xs ! k = xs ! i" if "xs ! i \<noteq> NaN"
  proof -
    from assms(4) have mem: "xs ! i \<in> set xs" by simp
    note cp = code_of_present [OF mem that]
    let ?k = "nat (code_of (unique_sorted xs) (xs ! i))"
    from cp(1,2) have "?k < length (unique_sorted xs)" by simp
    moreover from cp(1) have "?ys ! i = Num (of_nat ?k)" by (simp add: nth)
    ultimately show ?thesis using cp(3) by blast
  qed
  ultimately show ?thesis
    using out by (auto simp: length_apply_vocabulary)
qed

theorem missing_value_code_witness:
  "to_codes [''letter''] gaps_frame = Inr gaps_codes \<and>
   getitem gaps_frame ''letter'' = Inr [Str ''B'', NaN, Str ''A'', Str ''B''] \<and>
   (\<exists>ys. getitem gaps_codes ''letter'' = Inr ys \<and> ys ! 1 = Num (- 1) \<and>
      (\<exists>k < 2. ys ! 3 = Num (of_nat k)))"
proof -
  let ?xs = "[Str ''B'', NaN, Str ''A'', Str ''B'']"
  have run: "to_codes [''letter''] gaps_frame = Inr gaps_codes"
    by code_simp
  have mem: "''letter'' \<in> set [''letter'']" by simp
  have col: "getitem gaps_frame ''letter'' = Inr ?xs"
    by code_simp
  have out: "getitem gaps_codes ''letter'' = Inr [Num 1, Num (- 1), Num 0, Num 1]"
    by code_simp
  have us: "length (unique_sorted ?xs) = 2"
    by code_simp
  have i1: "1 < length ?xs" and i3: "3 < length ?xs" by simp_all
  from missing_value_code [OF run mem col i1] out
  have a: "[Num 1, Num (- 1), Num 0, Num 1] ! 1 = Num (- 1)"
    by auto
  from missing_value_code [OF run mem col i3] out
  have b: "\<exists>k < length (unique_sorted ?xs). [Num 1, Num (- 1), Num 0, Num 1] ! 3 = Num (of_nat k)"
    by auto
  from a b show ?thesis
    unfolding us using run col out by blast
qed

text \<open>
  Claim C8. On two frames whose numbers lie within \<open>\<plusminus>2\<^sup>5\<^sup>3\<close>: the labels
  are the outcome column of the filtered training frame, taken
  before any column is dropped. They are as many as the rows of the training features,
  and row by row the two belong together: the index of the training features is the
  ticket number column of the filtered frame, and every column the first drop leaves
  alone is the filtered frame's column, encoded where it is named for encoding.
\<close>

theorem label_feature_alignment:
  assumes "wf_table train0" and "wf_table test"
    and "prepare train0 test = Inr (X_train, y_train, X_test)"
    and "exact_numbers train0" and "exact_numbers test"
  shows "\<exists>tr. compliance_filter train0 = Inr tr \<and>
           getitem tr ''compliance'' = Inr y_train \<and>
           length y_train = len tr \<and> len X_train = len tr \<and>
           length y_train = len X_train \<and>
           index X_train = column_or_nan tr ''ticket_id'' \<and>
           (\<forall>c \<in> set (names X_train) - set train_drop.
              getitem X_train c =
                Inr (encoded cat_columns c (column_or_nan tr c @ column_or_nan test c)
                      (column_or_nan tr c)))"
proof -
  from assms(3) obtain train df d s e where
    ld: "load_data train0 test = Inr (train, y_train, df)"
    and d: "drop_axis1 common_drop df = Inr d"
    and s: "set_index ''ticket_id'' d = Inr s"
    and e: "to_codes cat_columns s = Inr e"
    and X: "X_train = iloc 0 (Some (len train)) e"
    and T: "X_test = iloc (len train) None e"
    unfolding prepare_Inr_iff by blast
  from ld obtain tr where tr: "compliance_filter train0 = Inr tr"
    and lab: "getitem tr ''compliance'' = Inr y_train"
    and dr: "drop_axis1 train_drop tr = Inr train"
    by (auto simp: load_data_Inr_iff)
  note lf = load_data_facts [OF assms(1) ld]
  note sf = split_facts [OF lf(1) assms(2) d [unfolded lf(2)] s e X T]
  from assms(1) tr have wftr: "wf_table tr" by (rule compliance_filter_facts)
  from lab have "map_of (columns tr) ''compliance'' = Some y_train"
    by (simp add: getitem_Inr_iff)
  with wftr have n: "length y_train = len tr" by (rule wf_table_length)
  have len: "len train = len tr" using dr by (rule drop_axis1_facts(2))
  have kept: "column_or_nan train c = column_or_nan tr c" if "c \<notin> set train_drop" for c
    using dr that by (rule column_or_nan_drop_axis1)
  have "''ticket_id'' \<notin> set train_drop" by (simp add: train_drop_def)
  then have idx: "index X_train = column_or_nan tr ''ticket_id''"
    using sf(3) kept by simp
  have cols: "\<forall>c \<in> set (names X_train) - set train_drop.
      getitem X_train c =
        Inr (encoded cat_columns c (column_or_nan tr c @ column_or_nan test c)
              (column_or_nan tr c))"
  proof
    fix c assume "c \<in> set (names X_train) - set train_drop"
    then have "c \<in> set (names e)" "c \<notin> set train_drop" by (simp_all add: sf(5))
    with sf(7) [of c] kept [of c]
    show "getitem X_train c =
        Inr (encoded cat_columns c (column_or_nan tr c @ column_or_nan test c)
              (column_or_nan tr c))"
      by simp
  qed
  from tr lab n sf(1) len idx cols show ?thesis by auto
qed

theorem label_feature_alignment_witness:
  "wf_table demo_train \<and> wf_table demo_test \<and>
   exact_numbers demo_train \<and> exact_numbers demo_test \<and>
   prepare demo_train demo_test = Inr (demo_X_train, demo_y_train, demo_X_test) \<and>
   length demo_y_train = len demo_X_train \<and>
   (\<exists>tr. compliance_filter demo_train = Inr tr \<and>
      getitem tr ''compliance'' = Inr demo_y_train \<and>
      index demo_X_train = column_or_nan tr ''ticket_id'')"
  using label_feature_alignment [OF wf_demo_train wf_demo_test prepare_demo
      exact_demo_train exact_demo_test]
    wf_demo_train wf_demo_test prepare_demo exact_demo_train exact_demo_test
  by metis

text \<open>
  Claim C9. Dropping a list of columns fails with a key error naming the absent labels
  when some label is no column of the frame. When all labels are columns it succeeds,
  keeps the rows, and leaves exactly the columns not named, unchanged and in their
  order.
\<close>

theorem column_pruner_fails_or_prunes:
  "(\<not> set labels \<subseteq> set (names t) \<longrightarrow>
      (\<exists>missing. drop_axis1 labels t = Inl (KeyError missing) \<and> missing \<noteq> [] \<and>
         set missing = set labels - set (names t))) \<and>
   (set labels \<subseteq> set (names t) \<longrightarrow>
      (\<exists>t'. drop_axis1 labels t = Inr t' \<and> index t' = index t \<and>
         names t' = filter (\<lambda>c. c \<notin> set labels) (names t) \<and>
         (\<forall>c. getitem t' c = (if c \<in> set labels then Inl (KeyError [c]) else getitem t c))))"
proof (cases "filter (\<lambda>l. l \<notin> set (names t)) labels")
  case Nil
  then have sub: "set labels \<subseteq> set (names t)"
    by (simp add: drop_axis1_missing)
  then obtain t' where t': "drop_axis1 labels t = Inr t'"
    by (simp add: drop_axis1_Inr_iff)
  note df = drop_axis1_facts [OF t']
  have "getitem t' c = (if c \<in> set labels then Inl (KeyError [c]) else getitem t c)" for c
    by (simp add: getitem_def df(4))
  with sub t' df(1,3) show ?thesis by simp
next
  case (Cons l ls)
  then have nsub: "\<not> set labels \<subseteq> set (names t)"
    using drop_axis1_missing [of t labels] by simp
  have run: "drop_axis1 labels t = Inl (KeyError (l # ls))"
    using Cons by (simp add: drop_axis1_def)
  have "set (l # ls) = set labels - set (names t)"
    unfolding Cons [symmetric] by auto
  with nsub run show ?thesis by simp
qed

theorem column_pruner_fails_or_prunes_witness:
  "(\<exists>missing. drop_axis1 train_drop demo_test = Inl (KeyError missing) \<and>
      set missing = set train_drop - set (names demo_test)) \<and>
   drop_axis1 [''city'', ''city'', ''state''] letters_frame =
     Inl (KeyError [''city'', ''city'', ''state'']) \<and>
   (\<exists>t'. drop_axis1 [''letter'', ''letter''] letters_frame = Inr t' \<and>
      index t' = index letters_frame \<and> names t' = [''fine_amount''] \<and>
      getitem t' ''fine_amount'' = getitem letters_frame ''fine_amount'')"
proof -
  have absent: "\<not> set train_drop \<subseteq> set (names demo_test)"
    by code_simp
  have present: "set [''letter'', ''letter''] \<subseteq> set (names letters_frame)"
    by code_simp
  have rest: "filter (\<lambda>c. c \<notin> set [''letter'', ''letter'']) (names letters_frame)
      = [''fine_amount'']"
    by code_simp
  have other: "''fine_amount'' \<notin> set [''letter'', ''letter'']" by simp
  have absent': "\<not> set [''city'', ''city'', ''state''] \<subseteq> set (names letters_frame)"
    by code_simp
  have run': "drop_axis1 [''city'', ''city'', ''state''] letters_frame =
      Inl (KeyError [''city'', ''city'', ''state''])"
    by code_simp
  from column_pruner_fails_or_prunes [of "[''city'', ''city'', ''state'']" letters_frame] absent'
  obtain missing where
    m: "drop_axis1 [''city'', ''city'', ''state''] letters_frame = Inl (KeyError missing)"
    by blast
  with run' have "missing = [''city'', ''city'', ''state'']" by simp
  with m have e: "drop_axis1 [''city'', ''city'', ''state''] letters_frame =
      Inl (KeyError [''city'', ''city'', ''state''])"
    by simp
  from column_pruner_fails_or_prunes [of train_drop demo_test] absent
  have "\<exists>missing. drop_axis1 train_drop demo_test = Inl (KeyError missing) \<and>
      set missing = set train_drop - set (names demo_test)"
    by blast
  moreover
  from column_pruner_fails_or_prunes [of "[''letter'', ''letter'']" letters_frame] present
  obtain t' where run: "drop_axis1 [''letter'', ''letter''] letters_frame = Inr t'"
    and idx: "index t' = index letters_frame"
    and nm: "names t' = filter (\<lambda>c. c \<notin> set [''letter'', ''letter'']) (names letters_frame)"
    and col: "\<forall>c. getitem t' c =
      (if c \<in> set [''letter'', ''letter''] then Inl (KeyError [c]) else getitem letters_frame c)"
    by blast
  from col other have "getitem t' ''fine_amount'' = getitem letters_frame ''fine_amount''"
    by metis
  with run idx nm rest have "\<exists>t'. drop_axis1 [''letter'', ''letter''] letters_frame = Inr t' \<and>
      index t' = index letters_frame \<and> names t' = [''fine_amount''] \<and>
      getitem t' ''fine_amount'' = getitem letters_frame ''fine_amount''"
    by simp
  ultimately show ?thesis using e by blast
qed

end
